(* ===== verification/Ntmd_Prelude.thy ===== *)
theory Ntmd_Prelude
  imports Main "HOL-Library.Word" "HOL-Library.Sublist"
begin

text \<open>
  Prelude of the ntmd development: the machine integer types of the C++ sources, the
  outcomes a daemon call can have besides returning, the collections of facts the
  component theories share, and the generic lemmas on lists and maps they all use.
\<close>

unbundle bit_operations_syntax

section \<open>Machine integers\<close>

text \<open>
  A C++ integer of a fixed width is a word; \<open>int\<close>, \<open>pid_t\<close> are 32 bits wide and read
  with \<open>sint\<close>, \<open>std::size_t\<close> and \<open>std::time_t\<close> are 64 bits wide. A conversion between
  widths is \<open>ucast\<close> where the source type is unsigned and \<open>scast\<close> where it is signed.
\<close>

type_synonym u8 = "8 word"
type_synonym u16 = "16 word"
type_synonym u32 = "32 word"
type_synonym u64 = "64 word"
type_synonym i32 = "32 word"
type_synonym i64 = "64 word"

type_synonym pid = i32
type_synonym inode = u64

section \<open>Outcomes that do not return\<close>

text \<open>
  \<open>Uncaught\<close> is an exception no handler catches (\<open>std::terminate\<close>), \<open>Exited\<close> is
  \<open>std::exit\<close> with its status, \<open>Undefined\<close> is an access or an iterator outside of an object, and \<open>Json_error\<close> is
  the exception of the JSON library for a value it cannot print, which no handler catches either.
\<close>

datatype cxx_exn = InvalidArgument | OutOfRange

datatype abort = Uncaught cxx_exn | Exited int | Undefined | Json_error

section \<open>Collections\<close>

named_theorems cxx_eval \<open>definitions of the C++ library models, for evaluation\<close>
named_theorems frame \<open>what an operation leaves unchanged\<close>
named_theorems invariant_intros \<open>preservation of the component invariants\<close>

lemma sint_eq_int: "sint (w :: 'a::len word) = int n \<Longrightarrow> w = word_of_nat n"
  by (drule arg_cong [where f = "word_of_int :: int \<Rightarrow> 'a word"]) simp

lemma ucast_through_64 [simp]: "ucast (ucast (w :: u16) :: u64) = w"
  by (rule bit_word_eqI) (simp add: bit_simps)

lemma ucast_nat_64_32: "ucast (word_of_nat n :: u64) = (word_of_nat n :: u32)"
  by (rule bit_word_eqI) (simp add: bit_simps)

lemma ucast_minus_1_64_32: "ucast (- 1 :: u64) = (- 1 :: u32)"
  by (rule bit_word_eqI) (simp add: bit_simps)

lemma scast_nat_32_64: "n < 2 ^ 31 \<Longrightarrow> scast (word_of_nat n :: i32) = (word_of_nat n :: u64)"
  by (simp add: scast_eq signed_of_nat signed_take_bit_int_eq_self)

lemma sint_word_of_int_i32: "- (2 ^ 31) \<le> x \<Longrightarrow> x < 2 ^ 31 \<Longrightarrow> sint (word_of_int x :: i32) = x"
  by (simp add: signed_of_int signed_take_bit_int_eq_self)

lemma ucast_sint_64_32: "(ucast (w :: u64) :: i32) = word_of_int (sint w)"
  by (rule bit_word_eqI) (simp add: bit_simps)

lemma ucast_uint_64_32: "(ucast (w :: u64) :: i32) = word_of_int (uint w)"
  by (rule bit_word_eqI) (simp add: bit_simps)

lemma sint_ucast_i32:
  assumes "- (2 ^ 31) \<le> sint (w :: u64)" "sint w < 2 ^ 31"
  shows "sint (ucast w :: i32) = sint w"
  unfolding ucast_sint_64_32 by (rule sint_word_of_int_i32 [OF assms])

lemma sint_ucast_small:
  assumes "uint (b :: u64) < 2 ^ 31"
  shows "sint (ucast b :: i32) = uint b"
  unfolding ucast_uint_64_32 using assms by (intro sint_word_of_int_i32) (simp_all add: order_trans [OF _ uint_ge_0])

section \<open>Lists\<close>

definition strip_back :: "('a \<Rightarrow> bool) \<Rightarrow> 'a list \<Rightarrow> 'a list" where
  "strip_back P xs = rev (dropWhile P (rev xs))"

lemma strip_back_Nil [simp]: "strip_back P [] = []"
  by (simp add: strip_back_def)

lemma strip_back_snoc [simp]:
  "strip_back P (xs @ [x]) = (if P x then strip_back P xs else xs @ [x])"
  by (simp add: strip_back_def)

lemma strip_back_single [simp]: "strip_back P [x] = (if P x then [] else [x])"
  by (simp add: strip_back_def)

lemma strip_back_ends: "strip_back P xs = [] \<or> \<not> P (last (strip_back P xs))"
  by (induction xs rule: rev_induct) auto

lemma strip_back_idle: "xs = [] \<or> \<not> P (last xs) \<Longrightarrow> strip_back P xs = xs"
  by (induction xs rule: rev_induct) auto

lemma hd_strip_back: "strip_back P xs \<noteq> [] \<Longrightarrow> hd (strip_back P xs) = hd xs"
  by (induction xs rule: rev_induct) (auto simp: hd_append split: if_splits)

lemma dropWhile_idle: "xs = [] \<or> \<not> P (hd xs) \<Longrightarrow> dropWhile P xs = xs"
  by (cases xs) auto

lemma take_Suc_last: "k < length xs \<Longrightarrow> take (Suc k) xs = take k xs @ [xs ! k]"
  by (rule take_Suc_conv_app_nth)

lemma set_remove1_distinct: "distinct xs \<Longrightarrow> set (remove1 x xs) = set xs - {x}"
  by simp

lemma takeWhile_append_stop:
  "(\<forall>x\<in>set xs. P x) \<Longrightarrow> ys = [] \<or> \<not> P (hd ys) \<Longrightarrow> takeWhile P (xs @ ys) = xs"
  by (cases ys) (auto simp: takeWhile_append2 takeWhile_tail)

text \<open>The first result a search through a list has.\<close>

fun first_some :: "('a \<Rightarrow> 'b option) \<Rightarrow> 'a list \<Rightarrow> 'b option" where
  "first_some f [] = None"
| "first_some f (x # xs) = (case f x of None \<Rightarrow> first_some f xs | Some y \<Rightarrow> Some y)"

lemma first_some_None_iff: "first_some f xs = None \<longleftrightarrow> (\<forall>x\<in>set xs. f x = None)"
  by (induction xs) (auto split: option.splits)

lemma first_some_SomeD: "first_some f xs = Some y \<Longrightarrow> \<exists>x\<in>set xs. f x = Some y"
  by (induction xs) (auto split: option.splits)

section \<open>Maps\<close>

text \<open>Writing the entries of a list one after the other, the last one winning.\<close>

lemma map_add_map_of_snoc: "m ++ map_of (xs @ [(k, v)]) = m(k \<mapsto> v) ++ map_of xs"
  by (auto simp: map_add_def fun_eq_iff split: option.splits)

end
