(* ===== verification/LRU_Array.thy ===== *)
theory LRU_Array
  imports Ntmd_Prelude
begin

text \<open>
  \<open>src/src/util/LRUArray.hpp\<close>: the least recently used array, a deque with a maximal size.
  Its abstract value is the history of the items pushed into it: the array holds the first
  \<open>mSize\<close> different items of the history, the most recent one first. The locale \<open>lru_cache\<close>
  states what the process index relies on.
\<close>

section \<open>The class\<close>

record 'a LRUArray =
  mDeque :: "'a list"
  mSize :: u64

text \<open>
  The constructor takes a \<open>std::size_t\<close>; the process index calls it with the \<open>int\<close> of the
  configuration, which is converted (a negative size is a huge one).
\<close>

definition LRUArray_new :: "u64 \<Rightarrow> 'a LRUArray" where
  "LRUArray_new n = \<lparr>mDeque = [], mSize = n\<rparr>"

text \<open>\<open>std::find\<close> followed by \<open>erase\<close> of the position found.\<close>

fun deque_erase_first :: "'a \<Rightarrow> 'a list \<Rightarrow> 'a list" where
  "deque_erase_first x [] = []"
| "deque_erase_first x (y # ys) = (if y = x then ys else y # deque_erase_first x ys)"

fun deque_find :: "'a \<Rightarrow> 'a list \<Rightarrow> bool" where
  "deque_find x [] = False"
| "deque_find x (y # ys) = (if y = x then True else deque_find x ys)"

definition LRUArray_update :: "'a \<Rightarrow> 'a LRUArray \<Rightarrow> 'a LRUArray" where
  "LRUArray_update item a =
     (if mSize a = 0 then a
      else case mDeque a of
        [] \<Rightarrow> a\<lparr>mDeque := [item]\<rparr>
      | front # _ \<Rightarrow>
          if front \<noteq> item then
            let d = (if deque_find item (mDeque a) then deque_erase_first item (mDeque a) else mDeque a)
            in if word_of_nat (length d) = mSize a
               then a\<lparr>mDeque := item # butlast d\<rparr>
               else a\<lparr>mDeque := item # d\<rparr>
          else a)"

definition LRUArray_contains :: "'a \<Rightarrow> 'a LRUArray \<Rightarrow> bool" where
  "LRUArray_contains item a = deque_find item (mDeque a)"

definition LRUArray_erase :: "'a \<Rightarrow> 'a LRUArray \<Rightarrow> 'a LRUArray" where
  "LRUArray_erase item a =
     (if deque_find item (mDeque a) then a\<lparr>mDeque := deque_erase_first item (mDeque a)\<rparr> else a)"

definition LRUArray_iterator :: "'a LRUArray \<Rightarrow> 'a list" where
  "LRUArray_iterator a = mDeque a"

definition LRUArray_empty :: "'a LRUArray \<Rightarrow> bool" where
  "LRUArray_empty a = (mDeque a = [])"

definition LRUArray_clear :: "'a LRUArray \<Rightarrow> 'a LRUArray" where
  "LRUArray_clear a = a\<lparr>mDeque := []\<rparr>"

lemma deque_erase_first_eq [simp]: "deque_erase_first x ys = remove1 x ys"
  by (induction ys) auto

lemma deque_find_iff [simp]: "deque_find x ys \<longleftrightarrow> x \<in> set ys"
  by (induction ys) auto

section \<open>Invariant\<close>

definition lru_ok :: "'a LRUArray \<Rightarrow> bool" where
  "lru_ok a \<longleftrightarrow> distinct (mDeque a) \<and> length (mDeque a) \<le> unat (mSize a)"

lemma lru_ok_new [simp, intro]: "lru_ok (LRUArray_new n)"
  by (simp add: lru_ok_def LRUArray_new_def)

text \<open>The comparison of the deque's size with \<open>mSize\<close> does not wrap around.\<close>

lemma size_compare:
  assumes "length d \<le> unat (n :: u64)"
  shows "word_of_nat (length d) = n \<longleftrightarrow> length d = unat n"
proof -
  have "unat n < 2 ^ LENGTH(64)" by (rule unsigned_less)
  then have "length d < 2 ^ 64" using assms by simp
  then have "unat (word_of_nat (length d) :: u64) = length d"
    by (simp add: unsigned_of_nat take_bit_nat_eq_self)
  then show ?thesis by (metis word_unat_eq_iff)
qed

text \<open>The reference: the item moves to, or enters at, the front, and the excess is cut off.\<close>

lemma mDeque_update:
  assumes "lru_ok a"
  shows "mDeque (LRUArray_update x a) = take (unat (mSize a)) (x # remove1 x (mDeque a))"
proof (cases "mSize a = 0")
  case True
  with assms show ?thesis by (simp add: LRUArray_update_def lru_ok_def)
next
  case False
  then have pos: "0 < unat (mSize a)" by (simp add: unat_gt_0)
  then obtain n where n: "unat (mSize a) = Suc n" using gr0_implies_Suc by blast
  let ?d = "remove1 x (mDeque a)"
  have len: "length ?d \<le> unat (mSize a)"
    using assms by (auto simp: lru_ok_def length_remove1)
  show ?thesis
  proof (cases "mDeque a")
    case Nil
    with False n show ?thesis by (simp add: LRUArray_update_def)
  next
    case (Cons y ys)
    show ?thesis
    proof (cases "y = x")
      case True
      with Cons False n assms show ?thesis by (simp add: LRUArray_update_def lru_ok_def)
    next
      case ne: False
      have d: "(if deque_find x (mDeque a) then deque_erase_first x (mDeque a) else mDeque a) = ?d"
        by (simp add: remove1_idem)
      show ?thesis
        using False Cons ne n len size_compare [OF len] unfolding LRUArray_update_def d
        by (auto simp: Let_def butlast_conv_take)
    qed
  qed
qed

lemma mSize_update [simp, frame]: "mSize (LRUArray_update x a) = mSize a"
  by (simp add: LRUArray_update_def Let_def split: list.splits)

lemma mSize_erase [simp, frame]: "mSize (LRUArray_erase x a) = mSize a"
  by (simp add: LRUArray_erase_def)

lemma mSize_new [simp]: "mSize (LRUArray_new n) = n"
  by (simp add: LRUArray_new_def)

lemma mDeque_new [simp]: "mDeque (LRUArray_new n) = []"
  by (simp add: LRUArray_new_def)

lemma mDeque_erase: "mDeque (LRUArray_erase x a) = remove1 x (mDeque a)"
  by (simp add: LRUArray_erase_def remove1_idem)

lemma lru_ok_update [invariant_intros]: "lru_ok a \<Longrightarrow> lru_ok (LRUArray_update x a)"
  using mDeque_update [of a x]
  by (auto simp: lru_ok_def distinct_take)

lemma lru_ok_erase [invariant_intros]: "lru_ok a \<Longrightarrow> lru_ok (LRUArray_erase x a)"
  by (auto simp: lru_ok_def mDeque_erase length_remove1 distinct_remove1 split: if_splits)

lemma lru_ok_clear [invariant_intros]: "lru_ok a \<Longrightarrow> lru_ok (LRUArray_clear a)"
  by (simp add: lru_ok_def LRUArray_clear_def)

section \<open>The interface\<close>

text \<open>
  What a client of the cache relies on: the items are listed without duplicates, an update
  brings the item to the front (when the capacity is not 0) and brings in nothing else, an
  erasure takes out exactly the item, and membership is what the listing says.
\<close>

locale lru_cache =
  fixes update :: "'a \<Rightarrow> 'c \<Rightarrow> 'c"
    and erase :: "'a \<Rightarrow> 'c \<Rightarrow> 'c"
    and contains :: "'a \<Rightarrow> 'c \<Rightarrow> bool"
    and items :: "'c \<Rightarrow> 'a list"
    and capacity :: "'c \<Rightarrow> nat"
    and ok :: "'c \<Rightarrow> bool"
  assumes items_distinct: "ok c \<Longrightarrow> distinct (items c)"
    and items_bound: "ok c \<Longrightarrow> length (items c) \<le> capacity c"
    and contains_items: "contains x c \<longleftrightarrow> x \<in> set (items c)"
    and items_update: "ok c \<Longrightarrow> items (update x c) = take (capacity c) (x # remove1 x (items c))"
    and items_erase: "items (erase x c) = remove1 x (items c)"
    and capacity_update: "capacity (update x c) = capacity c"
    and capacity_erase: "capacity (erase x c) = capacity c"
    and ok_update: "ok c \<Longrightarrow> ok (update x c)"
    and ok_erase: "ok c \<Longrightarrow> ok (erase x c)"
begin

lemma hd_update: "ok c \<Longrightarrow> 0 < capacity c \<Longrightarrow> hd (items (update x c)) = x \<and> contains x (update x c)"
  by (cases "capacity c") (simp_all add: items_update contains_items)

lemma set_update: "ok c \<Longrightarrow> set (items (update x c)) \<subseteq> insert x (set (items c))"
  using set_take_subset [of "capacity c" "x # remove1 x (items c)"] set_remove1_subset [of x "items c"]
  by (auto simp: items_update)

lemma ok_erase_all: "ok c \<Longrightarrow> ok (foldl (\<lambda>c x. erase x c) c xs)"
  by (induction xs arbitrary: c) (auto intro: ok_erase)

lemma capacity_erase_all: "capacity (foldl (\<lambda>c x. erase x c) c xs) = capacity c"
  by (induction xs arbitrary: c) (auto simp: capacity_erase)

lemma items_erase_all:
  "ok c \<Longrightarrow> items (foldl (\<lambda>c x. erase x c) c xs) = [y \<leftarrow> items c. y \<notin> set xs]"
proof (induction xs arbitrary: c)
  case Nil
  then show ?case by simp
next
  case (Cons x xs)
  have "items (foldl (\<lambda>c x. erase x c) (erase x c) xs) = [y \<leftarrow> items (erase x c). y \<notin> set xs]"
    using Cons by (simp add: ok_erase)
  also have "\<dots> = [y \<leftarrow> items c. y \<notin> set (x # xs)]"
    using items_distinct [OF Cons.prems]
    by (simp add: items_erase distinct_remove1_removeAll removeAll_filter_not_eq)
      (auto intro: filter_cong)
  finally show ?case by simp
qed

lemma ok_update_all: "ok c \<Longrightarrow> ok (foldl (\<lambda>c x. update x c) c xs)"
  by (induction xs arbitrary: c) (auto intro: ok_update)

end

interpretation lru: lru_cache LRUArray_update LRUArray_erase LRUArray_contains LRUArray_iterator
  "\<lambda>a. unat (mSize a)" lru_ok
  by unfold_locales
    (auto simp: LRUArray_iterator_def LRUArray_contains_def mDeque_erase mDeque_update
      lru_ok_update lru_ok_erase, auto simp: lru_ok_def)

section \<open>Reference: the most recent distinct items of the history\<close>

definition most_recent :: "'a list \<Rightarrow> 'a list" where
  "most_recent history = foldl (\<lambda>r x. x # removeAll x r) [] history"

lemma most_recent_snoc [simp]: "most_recent (h @ [x]) = x # removeAll x (most_recent h)"
  by (simp add: most_recent_def)

lemma most_recent_Nil [simp]: "most_recent [] = []"
  by (simp add: most_recent_def)

lemma distinct_most_recent: "distinct (most_recent h)"
  by (induction h rule: rev_induct) (auto simp: distinct_removeAll)

lemma set_most_recent: "set (most_recent h) = set h"
  by (induction h rule: rev_induct) auto

lemma take_remove1:
  "distinct r \<Longrightarrow> 0 < n \<Longrightarrow> take (n - 1) (remove1 x (take n r)) = take (n - 1) (removeAll x r)"
proof (induction r arbitrary: n)
  case Nil
  then show ?case by simp
next
  case (Cons y r)
  then obtain m where n: "n = Suc m" using gr0_implies_Suc by blast
  show ?case
  proof (cases "y = x")
    case True
    with Cons.prems n show ?thesis by simp
  next
    case False
    with Cons.prems n Cons.IH [of m] show ?thesis by (cases m) auto
  qed
qed

lemma LRUArray_history_inv:
  "lru_ok (foldl (\<lambda>a x. LRUArray_update x a) (LRUArray_new n) h) \<and>
   mSize (foldl (\<lambda>a x. LRUArray_update x a) (LRUArray_new n) h) = n \<and>
   mDeque (foldl (\<lambda>a x. LRUArray_update x a) (LRUArray_new n) h) = take (unat n) (most_recent h)"
proof (induction h rule: rev_induct)
  case Nil
  then show ?case by simp
next
  case (snoc x h)
  let ?a = "foldl (\<lambda>a x. LRUArray_update x a) (LRUArray_new n) h"
  from snoc have ok: "lru_ok ?a" by simp
  have "mDeque (LRUArray_update x ?a) = take (unat n) (most_recent (h @ [x]))"
    using mDeque_update [OF ok, of x] snoc take_remove1 [OF distinct_most_recent, of "unat n" x h]
    by (cases "unat n") simp_all
  with ok snoc show ?case by (simp add: lru_ok_update)
qed

text \<open>
  C30. Pushing any sequence of items into a fresh \<open>LRUArray\<close> of size \<open>n\<close> leaves exactly the \<open>n\<close>
  most recently pushed different items, the latest first (nothing for size 0).
\<close>

theorem LRUArray_keeps_most_recent:
  "LRUArray_iterator (foldl (\<lambda>a x. LRUArray_update x a) (LRUArray_new n) history) =
   take (unat n) (most_recent history)"
  using LRUArray_history_inv [of n history] by (simp add: LRUArray_iterator_def)

end
