(* ===== verification/Cxx_Std.thy ===== *)
theory Cxx_Std
  imports Ntmd_Prelude
begin

text \<open>
  The parts of the C++ standard library the sources use on strings: the character
  classes of \<open><cctype>\<close> in the C locale, \<open>std::stoi\<close>, \<open>std::to_string\<close> and
  \<open>std::getline\<close>. A \<open>std::string\<close> is a list of bytes.
\<close>

section \<open>Character classes\<close>

definition isspace :: "char \<Rightarrow> bool" where
  [cxx_eval]: "isspace c \<longleftrightarrow> of_char c = (32::nat) \<or> (9 \<le> (of_char c::nat) \<and> (of_char c::nat) \<le> 13)"

definition isdigit :: "char \<Rightarrow> bool" where
  [cxx_eval]: "isdigit c \<longleftrightarrow> 48 \<le> (of_char c::nat) \<and> (of_char c::nat) \<le> 57"

definition isupper :: "char \<Rightarrow> bool" where
  [cxx_eval]: "isupper c \<longleftrightarrow> 65 \<le> (of_char c::nat) \<and> (of_char c::nat) \<le> 90"

definition isxdigit :: "char \<Rightarrow> bool" where
  [cxx_eval]: "isxdigit c \<longleftrightarrow> isdigit c \<or> (65 \<le> (of_char c::nat) \<and> (of_char c::nat) \<le> 70)
     \<or> (97 \<le> (of_char c::nat) \<and> (of_char c::nat) \<le> 102)"

definition tolower :: "char \<Rightarrow> char" where
  [cxx_eval]: "tolower c = (if isupper c then char_of ((of_char c :: nat) + 32) else c)"

definition digit_char :: "nat \<Rightarrow> char" where
  "digit_char d = char_of (48 + d)"

definition digit_value :: "char \<Rightarrow> nat" where
  [cxx_eval]: "digit_value c = of_char c - 48"

lemma isdigit_digit_char [simp]: "d < 10 \<Longrightarrow> isdigit (digit_char d)"
  by (simp add: isdigit_def digit_char_def)

lemma digit_value_digit_char [simp]: "d < 10 \<Longrightarrow> digit_value (digit_char d) = d"
  by (simp add: digit_value_def digit_char_def)

lemma isdigit_not_isspace: "isdigit c \<Longrightarrow> \<not> isspace c"
  by (auto simp: isdigit_def isspace_def)

lemma isdigit_not_sign: "isdigit c \<Longrightarrow> c \<noteq> CHR ''-'' \<and> c \<noteq> CHR ''+''"
  by (auto simp: isdigit_def)

text \<open>A string without a zero byte is the same as a C string.\<close>

lemma takeWhile_no_zero: "CHR 0x00 \<notin> set s \<Longrightarrow> takeWhile (\<lambda>c. c \<noteq> CHR 0x00) s = s"
  by (induction s) auto

section \<open>Decimal numbers\<close>

definition decimal_value :: "string \<Rightarrow> nat" where
  [cxx_eval]: "decimal_value ds = foldl (\<lambda>v c. 10 * v + digit_value c) 0 ds"

fun show_nat :: "nat \<Rightarrow> string" where
  "show_nat n = (if n < 10 then [digit_char n] else show_nat (n div 10) @ [digit_char (n mod 10)])"

declare show_nat.simps [simp del]

text \<open>\<open>std::to_string\<close> and \<open>operator<<\<close> on a signed integer.\<close>

definition to_string :: "int \<Rightarrow> string" where
  "to_string i = (if i < 0 then CHR ''-'' # show_nat (nat (- i)) else show_nat (nat i))"

text \<open>
  \<open>std::stoi\<close>: skips white space, takes an optional sign and the longest run of digits, and
  ignores the rest; throws \<open>std::invalid_argument\<close> without a digit and
  \<open>std::out_of_range\<close> outside of \<open>int\<close>.
\<close>

definition sign_split :: "string \<Rightarrow> bool \<times> string" where
  [cxx_eval]: "sign_split t = (case t of [] \<Rightarrow> (False, [])
     | c # r \<Rightarrow> if c = CHR ''-'' then (True, r) else if c = CHR ''+'' then (False, r) else (False, t))"

definition stoi :: "string \<Rightarrow> cxx_exn + i32" where
  [cxx_eval]: "stoi s =
     (let (neg, u) = sign_split (dropWhile isspace s);
          ds = takeWhile isdigit u;
          v = (if neg then - int (decimal_value ds) else int (decimal_value ds))
      in if ds = [] then Inl InvalidArgument
         else if v < - (2 ^ 31) \<or> 2 ^ 31 \<le> v then Inl OutOfRange
         else Inr (word_of_int v))"

lemma set_show_nat: "\<forall>c\<in>set (show_nat n). isdigit c"
proof (induction n rule: show_nat.induct)
  case (1 n)
  then show ?case by (subst show_nat.simps) auto
qed

lemma show_nat_nonempty [simp]: "show_nat n \<noteq> []"
  by (subst show_nat.simps) simp

lemma length_show_nat: "n < 10 ^ Suc k \<Longrightarrow> length (show_nat n) \<le> Suc k"
proof (induction k arbitrary: n)
  case (Suc k)
  show ?case
  proof (cases "n < 10")
    case False
    from Suc.prems have "n div 10 < 10 ^ Suc k" by (simp add: less_mult_imp_div_less)
    from Suc.IH [OF this] False show ?thesis by (subst show_nat.simps) simp
  qed (subst show_nat.simps, simp)
qed (subst show_nat.simps, simp)

lemma isdigit_hd_show_nat: "isdigit (hd (show_nat n))"
  using set_show_nat [of n] by simp

lemma decimal_value_snoc [simp]: "decimal_value (ds @ [c]) = 10 * decimal_value ds + digit_value c"
  by (simp add: decimal_value_def)

lemma decimal_value_Nil [simp]: "decimal_value [] = 0"
  by (simp add: decimal_value_def)

lemma decimal_value_show_nat [simp]: "decimal_value (show_nat n) = n"
proof (induction n rule: show_nat.induct)
  case (1 n)
  show ?case
  proof (cases "n < 10")
    case True
    then show ?thesis
      using decimal_value_snoc [of "[]" "digit_char n"] by (subst show_nat.simps) simp
  next
    case False
    with 1 show ?thesis by (subst show_nat.simps) simp
  qed
qed

lemma dropWhile_isspace_digits:
  "ds \<noteq> [] \<Longrightarrow> isdigit (hd ds) \<Longrightarrow> dropWhile isspace (ds @ rest) = ds @ rest"
  by (cases ds) (auto dest: isdigit_not_isspace)

lemma sign_split_digits:
  "ds \<noteq> [] \<Longrightarrow> isdigit (hd ds) \<Longrightarrow> sign_split (ds @ rest) = (False, ds @ rest)"
  by (cases ds) (auto simp: sign_split_def dest: isdigit_not_sign)

text \<open>Digits followed by something that is no digit: the value, or out of range.\<close>

lemma stoi_digits:
  assumes ds: "ds \<noteq> []" "\<forall>c\<in>set ds. isdigit c" and rest: "rest = [] \<or> \<not> isdigit (hd rest)"
  shows "stoi (ds @ rest) =
    (if decimal_value ds < 2 ^ 31 then Inr (word_of_nat (decimal_value ds)) else Inl OutOfRange)"
proof -
  have hd: "isdigit (hd ds)" using ds by simp
  have "takeWhile isdigit (ds @ rest) = ds"
    using ds(2) rest by (rule takeWhile_append_stop)
  then show ?thesis
    using ds by (auto simp: stoi_def dropWhile_isspace_digits [OF ds(1) hd]
        sign_split_digits [OF ds(1) hd] Let_def)
qed

lemma stoi_negative_digits:
  assumes ds: "ds \<noteq> []" "\<forall>c\<in>set ds. isdigit c" and rest: "rest = [] \<or> \<not> isdigit (hd rest)"
    and bound: "decimal_value ds \<le> 2 ^ 31"
  shows "stoi (CHR ''-'' # ds @ rest) = Inr (word_of_int (- int (decimal_value ds)))"
proof -
  have "takeWhile isdigit (ds @ rest) = ds"
    using ds(2) rest by (rule takeWhile_append_stop)
  then show ?thesis
    using ds bound by (auto simp: stoi_def sign_split_def Let_def isspace_def)
qed

lemma stoi_to_string:
  assumes "rest = [] \<or> \<not> isdigit (hd rest)"
  shows "stoi (to_string (sint (w :: i32)) @ rest) = Inr w"
proof -
  have range: "- (2 ^ 31) \<le> sint w" "sint w < 2 ^ 31"
    using sint_greater_eq [of w] sint_less [of w] by simp_all
  show ?thesis
  proof (cases "sint w < 0")
    case True
    then have "stoi (to_string (sint w) @ rest) = Inr (word_of_int (- int (nat (- sint w))))"
      using stoi_negative_digits [OF show_nat_nonempty set_show_nat assms, of "nat (- sint w)"] range
      by (simp add: to_string_def)
    with True show ?thesis by simp
  next
    case False
    then have "stoi (to_string (sint w) @ rest) = Inr (word_of_nat (nat (sint w)))"
      using stoi_digits [OF show_nat_nonempty set_show_nat assms, of "nat (sint w)"] range
      by (simp add: to_string_def)
    with False show ?thesis by simp
  qed
qed

lemma stoi_to_string_end [simp]: "stoi (to_string (sint (w :: i32))) = Inr w"
  using stoi_to_string [of "[]" w] by simp

section \<open>Reading lines\<close>

text \<open>
  The lines successive calls of \<open>std::getline\<close> deliver: separated by newlines, the last one
  only when it is not empty.
\<close>

fun getlines :: "string \<Rightarrow> string \<Rightarrow> string list" where
  "getlines cur [] = (if cur = [] then [] else [cur])"
| "getlines cur (c # cs) = (if c = CHR 0x0A then cur # getlines [] cs else getlines (cur @ [c]) cs)"

definition lines_of :: "string \<Rightarrow> string list" where
  [cxx_eval]: "lines_of s = getlines [] s"

lemma getlines_line:
  "CHR 0x0A \<notin> set l \<Longrightarrow> getlines cur (l @ CHR 0x0A # rest) = (cur @ l) # getlines [] rest"
  by (induction l arbitrary: cur) auto

lemma lines_of_Nil [simp]: "lines_of [] = []"
  by (simp add: lines_of_def)

lemma lines_of_line:
  "CHR 0x0A \<notin> set l \<Longrightarrow> lines_of (l @ CHR 0x0A # rest) = l # lines_of rest"
  using getlines_line [of l "[]" rest] by (simp add: lines_of_def)

definition unlines :: "string list \<Rightarrow> string" where
  "unlines ls = concat (map (\<lambda>l. l @ [CHR 0x0A]) ls)"

lemma unlines_simps [simp]: "unlines [] = []" "unlines (l # ls) = l @ CHR 0x0A # unlines ls"
  by (simp_all add: unlines_def)

lemma lines_of_unlines: "\<forall>l\<in>set ls. CHR 0x0A \<notin> set l \<Longrightarrow> lines_of (unlines ls) = ls"
  by (induction ls) (simp_all add: lines_of_line)

end
