(* ===== verification/String_Util.thy ===== *)
theory String_Util
  imports Cxx_Std
begin

text \<open>
  \<open>src/src/util/StringUtil.cpp\<close>: trimming, splitting, lower-casing, and the classification
  of strings. Iterators are positions; the end iterator of \<open>trim\<close> is an integer. The code decrements
  it before it looks at it, which is undefined when the string is empty.
\<close>

section \<open>trim\<close>

text \<open>The first loop of \<open>trim\<close>.\<close>

function trim_start :: "string \<Rightarrow> nat \<Rightarrow> nat" where
  "trim_start s i = (if i < length s \<and> isspace (s ! i) then trim_start s (Suc i) else i)"
  by pat_completeness auto
termination
  by (relation "measure (\<lambda>(s, i). length s - i)") auto

text \<open>The second one: \<open>do { end--; } while (distance(start, end) > 0 && isspace(*end))\<close>.\<close>

function trim_end :: "string \<Rightarrow> int \<Rightarrow> int \<Rightarrow> int" where
  "trim_end s start e =
     (if 0 < (e - 1) - start \<and> isspace (s ! nat (e - 1)) then trim_end s start (e - 1) else e - 1)"
  by pat_completeness auto
termination
  by (relation "measure (\<lambda>(s, start, e). nat (e - start))") auto

declare trim_start.simps [simp del] trim_end.simps [simp del]

definition trim :: "string \<Rightarrow> abort + string" where
  "trim s =
     (let start = trim_start s 0
      in if s = [] then Inl Undefined
         else
           let e = trim_end s (int start) (int (length s))
           in Inr (take (nat (e + 1 - int start)) (drop start s)))"

text \<open>What the result is: the string without the white space at both ends.\<close>

definition stripped :: "string \<Rightarrow> string" where
  "stripped s = strip_back isspace (dropWhile isspace s)"

lemma trim_start_eq: "i \<le> length s \<Longrightarrow> trim_start s i = i + length (takeWhile isspace (drop i s))"
proof (induction s i rule: trim_start.induct)
  case (1 s i)
  show ?case
  proof (cases "i < length s")
    case True
    then have "drop i s = s ! i # drop (Suc i) s" by (simp add: Cons_nth_drop_Suc)
    with True 1 show ?thesis by (subst trim_start.simps) auto
  next
    case False
    with 1 show ?thesis by (subst trim_start.simps) simp
  qed
qed

lemma trim_end_eq:
  assumes "s = pre @ t" "t \<noteq> []" "\<not> isspace (hd t)" "0 < k" "k \<le> length t"
  shows "trim_end s (int (length pre)) (int (length pre + k)) =
    int (length pre) + int (length (strip_back isspace (take k t))) - 1"
  using assms(4,5)
proof (induction k)
  case 0
  then show ?case by simp
next
  case (Suc k)
  have "nat (int (length pre) + int k) = length pre + k" by simp
  then have at: "s ! nat (int (length pre) + int k) = t ! k"
    using assms(1) by (simp add: nth_append)
  have last: "take (Suc k) t = take k t @ [t ! k]"
    using Suc.prems by (simp add: take_Suc_last)
  show ?case
  proof (cases "k = 0")
    case True
    then show ?thesis
      using assms(2,3) last by (subst trim_end.simps) (simp add: hd_conv_nth)
  next
    case False
    with Suc show ?thesis
      by (subst trim_end.simps) (simp add: at last)
  qed
qed

lemma trim_ends:
  assumes "t = dropWhile isspace s" "start = length s - length t"
  shows "trim_start s 0 = start"
    and "trim_end s (int start) (int (length s)) = int start + int (length (strip_back isspace t)) - 1"
proof -
  have split: "s = takeWhile isspace s @ t" using assms(1) by simp
  then have len: "length s = length (takeWhile isspace s) + length t"
    by (metis length_append)
  then have start: "start = length (takeWhile isspace s)" using assms(2) by simp
  then show "trim_start s 0 = start" by (simp add: trim_start_eq)
  show "trim_end s (int start) (int (length s)) = int start + int (length (strip_back isspace t)) - 1"
  proof (cases "t = []")
    case True
    with len start show ?thesis by (subst trim_end.simps) simp
  next
    case False
    then have "\<not> isspace (hd t)" using assms(1) hd_dropWhile by metis
    with trim_end_eq [OF split False this, of "length t"] False len start show ?thesis by simp
  qed
qed

text \<open>\<open>util::trim\<close> removes exactly the white space at both ends of a string that is not empty.\<close>

lemma trim_correct: "trim s = (if s = [] then Inl Undefined else Inr (stripped s))"
proof -
  let ?t = "dropWhile isspace s"
  let ?r = "strip_back isspace ?t"
  have "length s - length ?t = length (takeWhile isspace s)"
    by (metis add_diff_cancel_right' length_append takeWhile_dropWhile_id)
  then have drop: "drop (length s - length ?t) s = ?t"
    by (metis append_eq_conv_conj takeWhile_dropWhile_id)
  have "take (length ?r) ?t = ?r"
  proof -
    have "rev ?t = takeWhile isspace (rev ?t) @ dropWhile isspace (rev ?t)" by simp
    then have "?t = ?r @ rev (takeWhile isspace (rev ?t))"
      unfolding strip_back_def by (metis rev_append rev_rev_ident)
    then show ?thesis by (metis append_eq_conv_conj)
  qed
  then show ?thesis
    unfolding trim_def stripped_def using trim_ends [OF refl refl, of s] drop by (simp add: Let_def)
qed

definition trimmed :: "string \<Rightarrow> bool" where
  "trimmed s \<longleftrightarrow> s = [] \<or> (\<not> isspace (hd s) \<and> \<not> isspace (last s))"

lemma stripped_trimmed: "trimmed s \<Longrightarrow> stripped s = s"
  by (auto simp: stripped_def trimmed_def dropWhile_idle strip_back_idle)

lemma trimmed_stripped: "trimmed (stripped s)"
proof -
  let ?t = "dropWhile isspace s"
  have "strip_back isspace ?t \<noteq> [] \<Longrightarrow> ?t \<noteq> []" by (metis strip_back_Nil)
  then show ?thesis
    using strip_back_ends [of isspace ?t] hd_strip_back [of isspace ?t] hd_dropWhile [of isspace s]
    by (auto simp: trimmed_def stripped_def)
qed

lemma stripped_Cons_space: "isspace c \<Longrightarrow> stripped (c # s) = stripped s"
  by (simp add: stripped_def)

lemma stripped_snoc_space:
  assumes "isspace c"
  shows "stripped (s @ [c]) = stripped s"
proof (cases "\<forall>x\<in>set s. isspace x")
  case True
  then have "dropWhile isspace s = []" "dropWhile isspace (s @ [c]) = []"
    using assms by (auto simp: dropWhile_eq_Nil_conv)
  then show ?thesis by (simp only: stripped_def strip_back_Nil)
next
  case False
  then show ?thesis using assms by (auto simp: stripped_def dropWhile_append1)
qed

section \<open>split\<close>

fun split_loop :: "char \<Rightarrow> string \<Rightarrow> string list \<Rightarrow> string \<Rightarrow> string list \<times> string" where
  "split_loop d current words [] = (words, current)"
| "split_loop d current words (c # cs) =
     (if c \<noteq> d then split_loop d (current @ [c]) words cs
      else split_loop d [] (words @ [current]) cs)"

definition split :: "string \<Rightarrow> char \<Rightarrow> string list" where
  "split s delimiter =
     (let (words, current) = split_loop delimiter [] [] s
      in if current \<noteq> [] then words @ [current] else words)"

definition unsplit :: "char \<Rightarrow> string list \<Rightarrow> string" where
  "unsplit d ws = concat (map (\<lambda>w. w @ [d]) ws)"

lemma unsplit_append [simp]: "unsplit d (xs @ ys) = unsplit d xs @ unsplit d ys"
  by (simp add: unsplit_def)

lemma unsplit_simps [simp]: "unsplit d [] = []" "unsplit d (w # ws) = w @ d # unsplit d ws"
  by (simp_all add: unsplit_def)

lemma split_loop_inv:
  assumes "split_loop d cur ws s = (ws', cur')" "d \<notin> set cur" "\<forall>w\<in>set ws. d \<notin> set w"
  shows "unsplit d ws' @ cur' = unsplit d ws @ cur @ s \<and> d \<notin> set cur' \<and> (\<forall>w\<in>set ws'. d \<notin> set w)"
  using assms by (induction d cur ws s rule: split_loop.induct) (auto split: if_splits)

lemma split_empty_iff: "split s d = [] \<longleftrightarrow> s = []"
proof -
  obtain ws cur where l: "split_loop d [] [] s = (ws, cur)" by fastforce
  then have "unsplit d ws @ cur = s" using split_loop_inv [OF l] by simp
  with l show ?thesis by (cases ws) (auto simp: split_def)
qed

lemma split_no_delimiter: "d \<notin> set s \<Longrightarrow> s \<noteq> [] \<Longrightarrow> split s d = [s]"
proof -
  assume d: "d \<notin> set s" and s: "s \<noteq> []"
  have "split_loop d cur ws s = (ws, cur @ s)" for cur ws
    using d by (induction s arbitrary: cur) auto
  with s show ?thesis by (simp add: split_def)
qed

lemma split_loop_shift:
  "split_loop d cur ws s = (ws @ fst (split_loop d cur [] s), snd (split_loop d cur [] s))"
proof (induction s arbitrary: cur ws)
  case Nil
  then show ?case by simp
next
  case (Cons c s)
  show ?case
    using Cons [of "[]" "ws @ [cur]"] Cons [of "[]" "[cur]"] Cons [of "cur @ [c]" ws] by auto
qed

lemma split_Cons_word:
  assumes "d \<notin> set w"
  shows "split (w @ d # s) d = w # split s d"
proof -
  have "split_loop d cur [] (w @ d # s) = split_loop d [] [cur @ w] s" for cur
    using assms by (induction w arbitrary: cur) auto
  then have "split_loop d [] [] (w @ d # s) = split_loop d [] [w] s" by simp
  with split_loop_shift [of d "[]" "[w]" s] show ?thesis
    by (auto simp: split_def Let_def split: prod.splits)
qed

lemma hd_split_empty:
  assumes "s \<noteq> []"
  shows "hd (split s d) = [] \<longleftrightarrow> hd s = d"
proof (cases "hd s = d")
  case True
  with assms split_Cons_word [of d "[]" "tl s"] show ?thesis by (cases s) simp_all
next
  case False
  define w where "w = takeWhile (\<lambda>c. c \<noteq> d) s"
  from False assms have w: "w \<noteq> []" "d \<notin> set w" unfolding w_def by (cases s, auto dest: set_takeWhileD)+
  show ?thesis
  proof (cases "d \<in> set s")
    case True
    then have "dropWhile (\<lambda>c. c \<noteq> d) s \<noteq> []" by simp
    then obtain c t where "dropWhile (\<lambda>c. c \<noteq> d) s = c # t" by (cases "dropWhile (\<lambda>c. c \<noteq> d) s") auto
    moreover from this have "c = d" by (metis (full_types) hd_dropWhile list.distinct(1) list.sel(1))
    ultimately have "s = w @ d # t" using takeWhile_dropWhile_id [of "\<lambda>c. c \<noteq> d" s] by (simp add: w_def)
    with split_Cons_word [OF w(2)] w(1) False show ?thesis by simp
  next
    case d: False
    with split_no_delimiter [OF d assms] assms False show ?thesis by simp
  qed
qed

section \<open>The other string functions\<close>

definition strToLower :: "string \<Rightarrow> string" where
  "strToLower s = map tolower s"

definition stringToBool :: "string \<Rightarrow> cxx_exn + bool" where
  "stringToBool s =
     (if s = ''true'' \<or> s = ''yes'' \<or> s = ''on'' \<or> s = ''1'' then Inr True
      else if s = ''false'' \<or> s = ''no'' \<or> s = ''off'' \<or> s = ''0'' then Inr False
      else Inl InvalidArgument)"

fun all_digits :: "string \<Rightarrow> bool" where
  "all_digits [] = True"
| "all_digits (c # cs) = (if \<not> isdigit c then False else all_digits cs)"

definition isNumber :: "string \<Rightarrow> bool" where
  "isNumber s = (if s = [] then False else all_digits s)"

fun find_semicolon :: "string \<Rightarrow> bool" where
  "find_semicolon [] = False"
| "find_semicolon (c # cs) = (if c = CHR '';'' then True else find_semicolon cs)"

definition containsSemicolon :: "string \<Rightarrow> bool" where
  "containsSemicolon s = (if s = [] then False else find_semicolon s)"

lemma all_digits_iff [simp]: "all_digits s \<longleftrightarrow> (\<forall>c\<in>set s. isdigit c)"
  by (induction s) auto

lemma find_semicolon_iff [simp]: "find_semicolon s \<longleftrightarrow> CHR '';'' \<in> set s"
  by (induction s) auto

lemma isNumber_iff: "isNumber s \<longleftrightarrow> s \<noteq> [] \<and> (\<forall>c\<in>set s. isdigit c)"
  by (simp add: isNumber_def)

lemma containsSemicolon_iff: "containsSemicolon s \<longleftrightarrow> CHR '';'' \<in> set s"
  by (auto simp: containsSemicolon_def)

lemma isNumber_show_nat: "isNumber (show_nat n)"
  using set_show_nat by (simp add: isNumber_iff)

text \<open>\<open>std::stoi\<close> on a string \<open>isNumber\<close> accepts never throws \<open>std::invalid_argument\<close>.\<close>

lemma stoi_isNumber:
  "isNumber s \<Longrightarrow> stoi s =
    (if decimal_value s < 2 ^ 31 then Inr (word_of_nat (decimal_value s)) else Inl OutOfRange)"
  using stoi_digits [of s "[]"] by (simp add: isNumber_iff)

text \<open>
  \<open>util::split\<close> loses nothing but one final delimiter: the words it returns contain no
  delimiter, and writing each word followed by a delimiter gives the string back (with a
  delimiter appended where the string does not end with one).
\<close>

theorem split_roundtrip:
  "unsplit d (split s d) = (if s = [] \<or> last s = d then s else s @ [d]) \<and>
   [w \<leftarrow> split s d. d \<in> set w] = []"
proof -
  obtain ws cur where l: "split_loop d [] [] s = (ws, cur)" by fastforce
  have inv: "unsplit d ws @ cur = s" "d \<notin> set cur" "\<forall>w\<in>set ws. d \<notin> set w"
    using split_loop_inv [OF l] by auto
  have last: "cur = [] \<Longrightarrow> ws \<noteq> [] \<Longrightarrow> last s = d"
    using inv(1) by (cases ws rule: rev_cases) auto
  have "cur \<noteq> [] \<Longrightarrow> s \<noteq> [] \<and> last s \<noteq> d" using inv(1,2) by auto
  moreover have "ws = [] \<Longrightarrow> cur = [] \<Longrightarrow> s = []" using inv(1) by simp
  ultimately show ?thesis
    using inv last l by (auto simp: split_def filter_empty_conv)
qed

end
