(* ===== verification/IP_List.thy ===== *)
theory IP_List
  imports Ntmd_Prelude
begin

text \<open>
  \<open>src/src/net/IPList.cpp\<close>: the local addresses of the monitored device, an array of 64
  addresses and a count. The list \<open>getifaddrs\<close> hands out is an argument: of every entry the
  name and the 32 bits found where \<open>sockaddr_in\<close> has its address, whatever family the entry
  is of (the code casts without looking). The locale \<open>address_set\<close> states what the packet
  parser relies on.
\<close>

section \<open>The class\<close>

record IPList =
  mIPs :: "u32 list"
  ipl_size :: i32

record ifaddr =
  ifa_name :: string
  ifa_addr :: "u32 option"

definition IPList_new :: IPList where
  "IPList_new = \<lparr>mIPs = replicate 64 0, ipl_size = 0\<rparr>"

text \<open>
  The condition for an address to be put first, which is meant to be ``starts with 192.168'';
  \<open>s_addr\<close> is in network byte order, so the first octet is the lowest byte.
\<close>

definition assumed_primary :: "u32 \<Rightarrow> bool" where
  "assumed_primary s_addr \<longleftrightarrow> 43200 \<le> s_addr"

text \<open>The loop over the interfaces; \<open>tmp\<close> is the vector it fills from both ends.\<close>

fun collect_addresses :: "string \<Rightarrow> ifaddr list \<Rightarrow> u32 list \<Rightarrow> u32 list" where
  "collect_addresses device [] tmp = tmp"
| "collect_addresses device (i # ifs) tmp =
     (case ifa_addr i of
        None \<Rightarrow> collect_addresses device ifs tmp
      | Some ip \<Rightarrow>
          if ifa_name i \<noteq> device then collect_addresses device ifs tmp
          else if assumed_primary ip then collect_addresses device ifs (ip # tmp)
          else collect_addresses device ifs (tmp @ [ip]))"

text \<open>The loop that copies the vector into the array, which has 64 elements.\<close>

fun copy_addresses :: "nat \<Rightarrow> u32 list \<Rightarrow> IPList \<Rightarrow> abort + IPList" where
  "copy_addresses i [] l = Inr l"
| "copy_addresses i (ip # tmp) l =
     (if i < length (mIPs l)
      then copy_addresses (Suc i) tmp (l\<lparr>mIPs := (mIPs l)[i := ip], ipl_size := ipl_size l + 1\<rparr>)
      else Inl Undefined)"

definition IPList_init :: "ifaddr list option \<Rightarrow> string \<Rightarrow> IPList \<Rightarrow> abort + IPList" where
  "IPList_init getifaddrs device l =
     (case getifaddrs of
        None \<Rightarrow> Inl (Exited 1)
      | Some interfaces \<Rightarrow> copy_addresses 0 (collect_addresses device interfaces []) l)"

function contains_from :: "nat \<Rightarrow> IPList \<Rightarrow> u32 \<Rightarrow> bool" where
  "contains_from i l ip =
     (if int i < sint (ipl_size l)
      then (if mIPs l ! i = ip then True else contains_from (Suc i) l ip)
      else False)"
  by pat_completeness auto
termination
  by (relation "measure (\<lambda>(i, l, ip). nat (sint (ipl_size l)) - i)") auto

declare contains_from.simps [simp del]

definition IPList_contains :: "IPList \<Rightarrow> u32 \<Rightarrow> bool" where
  "IPList_contains l ip = (if mIPs l ! 0 = ip then True else contains_from 1 l ip)"

section \<open>The addresses of a device\<close>

text \<open>Reference: the addresses of the device's interfaces, in the order of \<open>getifaddrs\<close>.\<close>

definition device_addresses :: "string \<Rightarrow> ifaddr list \<Rightarrow> u32 list" where
  "device_addresses device ifs =
     concat (map (\<lambda>i. if ifa_name i = device then (case ifa_addr i of None \<Rightarrow> [] | Some ip \<Rightarrow> [ip]) else []) ifs)"

lemma device_addresses_Nil [simp]: "device_addresses device [] = []"
  by (simp add: device_addresses_def)

lemma device_addresses_Cons [simp]:
  "device_addresses device (i # ifs) =
     (if ifa_name i = device then (case ifa_addr i of None \<Rightarrow> [] | Some ip \<Rightarrow> [ip]) else []) @
     device_addresses device ifs"
  by (simp add: device_addresses_def)

lemma collect_addresses_eq:
  "collect_addresses device ifs tmp =
     rev [a \<leftarrow> device_addresses device ifs. assumed_primary a] @ tmp @
     [a \<leftarrow> device_addresses device ifs. \<not> assumed_primary a]"
proof (induction ifs arbitrary: tmp)
  case Nil
  then show ?case by simp
next
  case (Cons i ifs)
  show ?case
  proof (cases "ifa_addr i")
    case None
    then show ?thesis by (simp only: collect_addresses.simps device_addresses_Cons Cons.IH
          option.case if_cancel append_Nil)
  next
    case (Some ip)
    show ?thesis
      by (cases "ifa_name i = device"; cases "assumed_primary ip")
        (simp_all only: collect_addresses.simps device_addresses_Cons Cons.IH Some option.case
          simp_thms if_True if_False filter.simps filter_append rev.simps rev_append append_Cons
          append_Nil append_assoc)
  qed
qed

definition ipl_ok :: "IPList \<Rightarrow> bool" where
  "ipl_ok l \<longleftrightarrow> length (mIPs l) = 64 \<and> 0 \<le> sint (ipl_size l) \<and> sint (ipl_size l) \<le> 64 \<and>
     (ipl_size l = 0 \<longrightarrow> mIPs l ! 0 = 0)"

definition addresses :: "IPList \<Rightarrow> u32 set" where
  "addresses l = (if ipl_size l = 0 then {0} else set (take (nat (sint (ipl_size l))) (mIPs l)))"

lemma ipl_ok_new [simp, intro]: "ipl_ok IPList_new"
  by (simp add: ipl_ok_def IPList_new_def)

lemma contains_from_iff:
  "contains_from i l ip \<longleftrightarrow> (\<exists>j. i \<le> j \<and> int j < sint (ipl_size l) \<and> mIPs l ! j = ip)"
proof (induction i l ip rule: contains_from.induct)
  case (1 i l ip)
  show ?case
  proof (cases "int i < sint (ipl_size l) \<and> mIPs l ! i \<noteq> ip")
    case True
    then have "contains_from i l ip = contains_from (Suc i) l ip"
      by (subst contains_from.simps) simp
    also have "\<dots> \<longleftrightarrow> (\<exists>j. Suc i \<le> j \<and> int j < sint (ipl_size l) \<and> mIPs l ! j = ip)"
      using 1 True by simp
    finally show ?thesis using True by (metis Suc_le_eq le_neq_implies_less less_imp_le)
  next
    case False
    then show ?thesis by (subst contains_from.simps) auto
  qed
qed

lemma IPList_contains_iff:
  assumes "ipl_ok l"
  shows "IPList_contains l ip \<longleftrightarrow> ip \<in> addresses l"
proof (cases "ipl_size l = 0")
  case True
  with assms show ?thesis
    by (auto simp: IPList_contains_def contains_from_iff addresses_def ipl_ok_def)
next
  case False
  let ?n = "nat (sint (ipl_size l))"
  have n: "0 < ?n" "?n \<le> length (mIPs l)"
    using assms False by (auto simp: ipl_ok_def) (metis nless_le signed_0 word_eq_iff_signed)
  have "IPList_contains l ip \<longleftrightarrow> (\<exists>j<?n. mIPs l ! j = ip)"
  proof -
    have less: "int j < sint (ipl_size l) \<longleftrightarrow> j < ?n" for j by (simp add: zless_nat_eq_int_zless)
    have "(\<exists>j<?n. mIPs l ! j = ip) \<longleftrightarrow> mIPs l ! 0 = ip \<or> (\<exists>j. 1 \<le> j \<and> j < ?n \<and> mIPs l ! j = ip)"
      using n(1) by (metis One_nat_def Suc_leI gr0I)
    then show ?thesis by (simp add: IPList_contains_def contains_from_iff less)
  qed
  also have "\<dots> \<longleftrightarrow> ip \<in> set (take ?n (mIPs l))"
    using n by (auto simp: in_set_conv_nth)
  finally show ?thesis using False by (simp add: addresses_def)
qed

text \<open>The interface the packet parser uses.\<close>

locale address_set =
  fixes contains :: "'l \<Rightarrow> u32 \<Rightarrow> bool"
    and members :: "'l \<Rightarrow> u32 set"
    and ok :: "'l \<Rightarrow> bool"
  assumes contains_iff: "ok l \<Longrightarrow> contains l ip \<longleftrightarrow> ip \<in> members l"
begin

text \<open>A membership test on two addresses in the code's order decides which side is local.\<close>

lemma classify:
  assumes "ok l"
  shows "(if contains l s then a else if contains l d then b else c) =
    (if s \<in> members l then a else if d \<in> members l then b else c)"
  using assms by (simp add: contains_iff)

lemma foreign: "ok l \<Longrightarrow> \<not> contains l s \<and> \<not> contains l d \<longleftrightarrow> {s, d} \<inter> members l = {}"
  by (auto simp: contains_iff)

end

interpretation ipl: address_set IPList_contains addresses ipl_ok
  by unfold_locales (rule IPList_contains_iff)

section \<open>Initialisation\<close>

lemma copy_addresses_eq:
  assumes "length (mIPs l) = 64" "sint (ipl_size l) = int i" "i \<le> 64"
  shows "copy_addresses i tmp l =
    (if i + length tmp \<le> 64
     then Inr (l\<lparr>mIPs := take i (mIPs l) @ tmp @ drop (i + length tmp) (mIPs l),
                 ipl_size := word_of_nat (i + length tmp)\<rparr>)
     else Inl Undefined)"
  using assms
proof (induction i tmp l rule: copy_addresses.induct)
  case (1 i l)
  then have "ipl_size l = word_of_nat i" by (intro sint_eq_int) simp
  with 1 show ?case by simp
next
  case (2 i ip tmp l)
  let ?l = "l\<lparr>mIPs := (mIPs l)[i := ip], ipl_size := ipl_size l + 1\<rparr>"
  show ?case
  proof (cases "i < 64")
    case True
    have size: "ipl_size l = word_of_nat i" using "2.prems"(2) by (rule sint_eq_int)
    have "sint (word_of_nat (Suc i) :: i32) = int (Suc i)"
      using True by (simp add: signed_of_nat signed_take_bit_int_eq_self del: of_nat_Suc)
    then have s: "sint (ipl_size ?l) = int (Suc i)" by (simp add: size add.commute)
    have split: "take (Suc i) (mIPs ?l) = take i (mIPs l) @ [ip]"
      using True "2.prems"(1) by (simp add: take_Suc_conv_app_nth)
    show ?thesis
      using "2.IH" [OF _ _ s] True "2.prems"(1) split by (simp add: size)
  next
    case False
    with "2.prems" show ?thesis by simp
  qed
qed

lemma IPList_init_eq:
  assumes "tmp = collect_addresses device ifs []"
  shows "IPList_init (Some ifs) device IPList_new =
    (if length tmp \<le> 64
     then Inr \<lparr>mIPs = tmp @ replicate (64 - length tmp) 0, ipl_size = word_of_nat (length tmp)\<rparr>
     else Inl Undefined)"
  using copy_addresses_eq [of IPList_new 0 tmp] assms
  by (simp add: IPList_init_def IPList_new_def)

lemma length_collect_addresses:
  "length (collect_addresses device ifs []) = length (device_addresses device ifs)"
  using sum_length_filter_compl [of assumed_primary "device_addresses device ifs"]
  by (simp add: collect_addresses_eq)

lemma set_collect_addresses:
  "set (collect_addresses device ifs []) = set (device_addresses device ifs)"
  by (auto simp: collect_addresses_eq)

lemma IPList_init_facts:
  assumes "IPList_init (Some ifs) device IPList_new = Inr l"
  shows "length (device_addresses device ifs) \<le> 64" "ipl_ok l"
    and "addresses l = set (if device_addresses device ifs = [] then [0] else device_addresses device ifs)"
proof -
  let ?tmp = "collect_addresses device ifs []" and ?as = "device_addresses device ifs"
  show len: "length ?as \<le> 64"
    using assms by (simp add: IPList_init_eq length_collect_addresses split: if_splits)
  then have l: "l = \<lparr>mIPs = ?tmp @ replicate (64 - length ?tmp) 0, ipl_size = word_of_nat (length ?tmp)\<rparr>"
    using assms by (simp add: IPList_init_eq length_collect_addresses)
  have s: "sint (ipl_size l) = int (length ?tmp)"
    using len by (simp add: l length_collect_addresses signed_of_nat signed_take_bit_int_eq_self)
  then have z: "ipl_size l = 0 \<longleftrightarrow> ?as = []"
    using sint_eq_int [of "ipl_size l" 0] by (auto simp: l length_collect_addresses)
  have e: "?as = [] \<Longrightarrow> ?tmp = []"
    using length_collect_addresses [of device ifs] by simp
  have m: "mIPs l = ?tmp @ replicate (64 - length ?tmp) 0" by (simp add: l)
  show "ipl_ok l"
    using s len z e by (auto simp: ipl_ok_def m length_collect_addresses)
  show "addresses l = set (if ?as = [] then [0] else ?as)"
    using s z by (simp add: addresses_def m set_collect_addresses)
qed

lemma IPList_init_ok [invariant_intros]: "IPList_init g device IPList_new = Inr l \<Longrightarrow> ipl_ok l"
  using IPList_init_facts(2) by (cases g) (auto simp: IPList_init_def)

text \<open>
  C31. \<open>IPList::init\<close> followed by \<open>IPList::contains\<close>: with at most 64 addresses on the device the
  list answers exactly the addresses of the device's interfaces (and address 0 when there is
  none, since element 0 of the array is tested before the count is looked at); with more than
  64 the copy writes past the array.
\<close>

theorem IPList_init_contains:
  "case IPList_init (Some ifs) device IPList_new of
     Inl a \<Rightarrow> a = Undefined \<and> 64 < length (device_addresses device ifs)
   | Inr l \<Rightarrow> length (device_addresses device ifs) \<le> 64 \<and>
       (\<forall>ip. IPList_contains l ip \<longleftrightarrow>
          ip \<in> set (if device_addresses device ifs = [] then [0] else device_addresses device ifs))"
proof (cases "IPList_init (Some ifs) device IPList_new")
  case (Inl a)
  then show ?thesis by (auto simp: IPList_init_eq length_collect_addresses split: if_splits)
next
  case (Inr l)
  with IPList_init_facts [OF Inr] ipl.contains_iff [of l] show ?thesis by (simp only: sum.case simp_thms)
qed

end
