(* ===== verification/Packet.thy ===== *)
theory Packet
  imports IP_List Cxx_Std "HOL-Library.Monad_Syntax"
begin

text \<open>
  \<open>src/src/net/Packet.cpp\<close>: the packet constructor, which reads an Ethernet frame with an IPv4
  header out of the captured bytes, decides the direction from the local addresses and the kind
  from protocol and ports. The host is little endian: a 16 or 32 bit load takes the first byte
  as the lowest one. Loads outside of the captured bytes, which the code does not check for, are
  \<open>None\<close>.
\<close>

section \<open>Types\<close>

datatype Direction = Direction_Unknown | Incoming | Outgoing

datatype PacketType = PacketType_Unknown | TCP | UDP | ICMP | DNS | SSDP | NTP

record pcap_pkthdr =
  ts_sec :: i64
  hdr_len :: u32

text \<open>The timestamp has no initialiser: it is \<open>None\<close> until it is written.\<close>

record Packet =
  pkt_type :: PacketType
  protocol :: u8
  sip :: u32
  dip :: u32
  sport :: u16
  dport :: u16
  pkt_len :: i32
  totalHeaderLen :: i32
  direction :: Direction
  timestamp :: "i64 option"
  discard :: bool

definition Packet_init :: Packet where
  "Packet_init = \<lparr>pkt_type = PacketType_Unknown, protocol = 0, sip = 0, dip = 0, sport = 0, dport = 0,
     pkt_len = 0, totalHeaderLen = 0, direction = Direction_Unknown, timestamp = None, discard = False\<rparr>"

section \<open>Loads from the captured bytes\<close>

type_synonym frame = "u8 list"

definition load8 :: "frame \<Rightarrow> nat \<Rightarrow> u8 option" where
  [cxx_eval]: "load8 raw i = (if i < length raw then Some (raw ! i) else None)"

definition load16 :: "frame \<Rightarrow> nat \<Rightarrow> u16 option" where
  [cxx_eval]: "load16 raw i =
     (if i + 1 < length raw then Some (ucast (raw ! i) OR push_bit 8 (ucast (raw ! (i + 1)))) else None)"

definition load32 :: "frame \<Rightarrow> nat \<Rightarrow> u32 option" where
  [cxx_eval]: "load32 raw i =
     (if i + 3 < length raw
      then Some (ucast (raw ! i) OR push_bit 8 (ucast (raw ! (i + 1))) OR
                 push_bit 16 (ucast (raw ! (i + 2))) OR push_bit 24 (ucast (raw ! (i + 3))))
      else None)"

definition ntohs :: "u16 \<Rightarrow> u16" where
  [cxx_eval]: "ntohs w = push_bit 8 w OR drop_bit 8 w"

section \<open>The constructor\<close>

text \<open>The case distinctions on the UDP ports; a later one overrides an earlier one.\<close>

definition classify_udp :: "Packet \<Rightarrow> Packet" where
  "classify_udp p =
     (let p = (if (sport p = 53 \<or> dport p = 53) \<or> (sport p = 5353 \<and> dport p = 5353)
               then p\<lparr>pkt_type := DNS, discard := True\<rparr> else p);
          p = (if sport p = 1900 \<or> dport p = 1900
               then p\<lparr>pkt_type := SSDP, discard := True\<rparr> else p)
      in (if sport p = 123 \<and> dport p = 123
          then p\<lparr>pkt_type := NTP, discard := True\<rparr> else p))"

text \<open>
  The switch on the transport protocol, with \<open>offset\<close> the end of the IP header. The length of
  the TCP header is \<open>sizeof(tcpHeader->doff * 4)\<close> in the code, which is the size of an \<open>int\<close>.
\<close>

definition parse_transport :: "frame \<Rightarrow> nat \<Rightarrow> Packet \<Rightarrow> Packet option" where
  "parse_transport raw offset p =
     (if protocol p = 6 then do {
        source \<leftarrow> load16 raw offset;
        dest \<leftarrow> load16 raw (offset + 2);
        Some (p\<lparr>pkt_type := TCP, totalHeaderLen := word_of_nat offset + 4,
                sport := ntohs source, dport := ntohs dest\<rparr>)
      }
      else if protocol p = 17 then do {
        source \<leftarrow> load16 raw offset;
        dest \<leftarrow> load16 raw (offset + 2);
        Some (classify_udp (p\<lparr>pkt_type := UDP, totalHeaderLen := word_of_nat offset + 8,
                              sport := ntohs source, dport := ntohs dest\<rparr>))
      }
      else if protocol p = 1 then
        Some (p\<lparr>pkt_type := ICMP, totalHeaderLen := word_of_nat offset + 8, sport := 0, dport := 0\<rparr>)
      else Some (p\<lparr>discard := True\<rparr>))"

definition Packet_new :: "pcap_pkthdr \<Rightarrow> frame \<Rightarrow> IPList \<Rightarrow> Packet option" where
  "Packet_new header raw iplist = do {
     ether_type \<leftarrow> load16 raw 12;
     if ntohs ether_type \<noteq> 0x0800 then Some (Packet_init\<lparr>discard := True\<rparr>)
     else do {
       version_ihl \<leftarrow> load8 raw 14;
       saddr \<leftarrow> load32 raw 26;
       daddr \<leftarrow> load32 raw 30;
       proto \<leftarrow> load8 raw 23;
       let ipHeaderLen = unat (version_ihl AND 0x0F) * 4;
       let p = Packet_init\<lparr>pkt_len := hdr_len header, timestamp := Some (ts_sec header),
                 sip := saddr, dip := daddr, protocol := proto\<rparr>;
       if IPList_contains iplist (sip p)
       then parse_transport raw (ipHeaderLen + 14) (p\<lparr>direction := Outgoing\<rparr>)
       else if IPList_contains iplist (dip p)
       then parse_transport raw (ipHeaderLen + 14) (p\<lparr>direction := Incoming\<rparr>)
       else Some (p\<lparr>direction := Direction_Unknown, discard := True\<rparr>)
     }
   }"

section \<open>Printing\<close>

definition inet_ntop :: "u32 \<Rightarrow> string" where
  "inet_ntop ip =
     to_string (uint (ip AND 255)) @ ''.'' @ to_string (uint (drop_bit 8 ip AND 255)) @ ''.'' @
     to_string (uint (drop_bit 16 ip AND 255)) @ ''.'' @ to_string (uint (drop_bit 24 ip AND 255))"

definition type_string :: "Packet \<Rightarrow> string" where
  "type_string p =
     (case pkt_type p of TCP \<Rightarrow> ''TCP'' | UDP \<Rightarrow> ''UDP'' | ICMP \<Rightarrow> ''ICMP'' | DNS \<Rightarrow> ''DNS''
      | SSDP \<Rightarrow> ''SSDP'' | NTP \<Rightarrow> ''NTP''
      | PacketType_Unknown \<Rightarrow> ''Unknown ('' @ to_string (uint (protocol p)) @ '')'')"

definition direction_string :: "Direction \<Rightarrow> string" where
  "direction_string d =
     (case d of Incoming \<Rightarrow> ''Incoming'' | Outgoing \<Rightarrow> ''Outgoing'' | Direction_Unknown \<Rightarrow> ''Unknown'')"

definition Packet_print :: "Packet \<Rightarrow> string" where
  "Packet_print p =
     direction_string (direction p) @ '' '' @ type_string p @ '' Pkt: { '' @
     inet_ntop (sip p) @ '':'' @ to_string (uint (sport p)) @ '' -> '' @
     inet_ntop (dip p) @ '':'' @ to_string (uint (dport p)) @ '' '' @
     ''Len: '' @ to_string (sint (pkt_len p)) @ '' }''"

section \<open>Loads of stored numbers\<close>

text \<open>A port as it stands on the wire, and an address as it stands in memory.\<close>

definition port_bytes :: "u16 \<Rightarrow> frame" where
  "port_bytes w = [ucast (drop_bit 8 w), ucast w]"

definition addr_bytes :: "u32 \<Rightarrow> frame" where
  "addr_bytes ip = [ucast ip, ucast (drop_bit 8 ip), ucast (drop_bit 16 ip), ucast (drop_bit 24 ip)]"

lemma length_bytes [simp]: "length (port_bytes w) = 2" "length (addr_bytes ip) = 4"
  by (simp_all add: port_bytes_def addr_bytes_def)

lemma assemble32:
  "ucast (ucast ip :: u8) OR push_bit 8 (ucast (ucast (drop_bit 8 ip) :: u8)) OR
   push_bit 16 (ucast (ucast (drop_bit 16 ip) :: u8)) OR
   push_bit 24 (ucast (ucast (drop_bit 24 ip) :: u8)) = (ip :: u32)"
  (is "?l = ip")
proof (rule bit_word_eqI)
  fix n
  assume "n < LENGTH(32)"
  then show "bit ?l n = bit ip n"
    by (cases "n < 16"; cases "n < 24") (auto simp: bit_simps)
qed

lemma assemble16:
  "ntohs (ucast (ucast (drop_bit 8 w) :: u8) OR push_bit 8 (ucast (ucast w :: u8))) = w"
  unfolding ntohs_def
  by (rule bit_word_eqI) (auto simp: bit_simps dest: bit_imp_le_length)

text \<open>A load at the end of a known prefix.\<close>

lemma load8_append: "length pre = i \<Longrightarrow> load8 (pre @ b # post) i = Some b"
  by (auto simp: load8_def nth_append)

lemma load16_append:
  "length pre = i \<Longrightarrow> \<exists>v. load16 (pre @ port_bytes w @ post) i = Some v \<and> ntohs v = w"
  using assemble16 [of w] by (auto simp: load16_def port_bytes_def nth_append)

lemma load32_append: "length pre = i \<Longrightarrow> load32 (pre @ addr_bytes ip @ post) i = Some ip"
  using assemble32 [of ip] by (auto simp: load32_def addr_bytes_def nth_append numeral_eq_Suc)

section \<open>What the constructor computes\<close>

definition udp_kind :: "u16 \<Rightarrow> u16 \<Rightarrow> PacketType" where
  "udp_kind s d =
     (if s = 123 \<and> d = 123 then NTP
      else if s = 1900 \<or> d = 1900 then SSDP
      else if s = 53 \<or> d = 53 \<or> (s = 5353 \<and> d = 5353) then DNS
      else UDP)"

lemma classify_udp_eq:
  "pkt_type p = UDP \<Longrightarrow> \<not> discard p \<Longrightarrow>
   classify_udp p = p\<lparr>pkt_type := udp_kind (sport p) (dport p),
                      discard := udp_kind (sport p) (dport p) \<noteq> UDP\<rparr>"
  by (cases p) (auto simp: classify_udp_def udp_kind_def Let_def)

text \<open>An Ethernet frame around an IPv4 packet whose header has \<open>4 * (vi AND 15)\<close> bytes.\<close>

definition ipv4_frame :: "frame \<Rightarrow> u8 \<Rightarrow> frame \<Rightarrow> u8 \<Rightarrow> frame \<Rightarrow> u32 \<Rightarrow> u32 \<Rightarrow> frame \<Rightarrow> u16 \<Rightarrow> u16 \<Rightarrow> frame \<Rightarrow> frame"
where
  "ipv4_frame macs vi tos_to_ttl proto checksum src dst options s d payload =
     macs @ port_bytes 0x0800 @ [vi] @ tos_to_ttl @ [proto] @ checksum @ addr_bytes src @ addr_bytes dst @
     options @ port_bytes s @ port_bytes d @ payload"

definition local_direction :: "u32 set \<Rightarrow> u32 \<Rightarrow> u32 \<Rightarrow> Direction" where
  "local_direction A src dst =
     (if src \<in> A then Outgoing else if dst \<in> A then Incoming else Direction_Unknown)"

definition expected_packet :: "pcap_pkthdr \<Rightarrow> u32 set \<Rightarrow> u8 \<Rightarrow> u8 \<Rightarrow> u32 \<Rightarrow> u32 \<Rightarrow> u16 \<Rightarrow> u16 \<Rightarrow> Packet" where
  "expected_packet h A vi proto src dst s d =
     (let dir = local_direction A src dst; known = (dir \<noteq> Direction_Unknown);
          kind = (if \<not> known then PacketType_Unknown else if proto = 6 then TCP
                  else if proto = 17 then udp_kind s d else if proto = 1 then ICMP
                  else PacketType_Unknown);
          ports = (known \<and> (proto = 6 \<or> proto = 17));
          headers = unat (vi AND 15) * 4 + 14
      in \<lparr>pkt_type = kind, protocol = proto, sip = src, dip = dst,
          sport = (if ports then s else 0), dport = (if ports then d else 0),
          pkt_len = hdr_len h,
          totalHeaderLen = (if known \<and> proto = 6 then word_of_nat (headers + 4)
                            else if known \<and> (proto = 17 \<or> proto = 1) then word_of_nat (headers + 8)
                            else 0),
          direction = dir, timestamp = Some (ts_sec h),
          discard = (kind \<notin> {TCP, UDP, ICMP})\<rparr>)"

lemma parse_transport_expected:
  assumes "load16 raw off = Some vs" "ntohs vs = s" "load16 raw (off + 2) = Some vd" "ntohs vd = d"
    and "off = unat (vi AND 15) * 4 + 14"
    and "dir = local_direction A src dst" "dir \<noteq> Direction_Unknown"
  shows "parse_transport raw off (Packet_init\<lparr>pkt_len := hdr_len h, timestamp := Some (ts_sec h),
      sip := src, dip := dst, protocol := proto, direction := dir\<rparr>) =
    Some (expected_packet h A vi proto src dst s d)"
proof -
  consider "proto = 6" | "proto = 17" | "proto = 1" | "proto \<noteq> 6" "proto \<noteq> 17" "proto \<noteq> 1"
    by blast
  then show ?thesis
  proof cases
    case 2
    have "udp_kind s d \<in> {UDP, DNS, SSDP, NTP}" by (simp add: udp_kind_def)
    with 2 assms show ?thesis
      by (auto simp: parse_transport_def expected_packet_def classify_udp_eq Packet_init_def Let_def)
  qed (use assms in \<open>simp_all add: parse_transport_def expected_packet_def Packet_init_def Let_def\<close>)
qed

lemma Packet_new_ipv4_frame:
  assumes "ipl_ok l" and "length macs = 12" "length tos_to_ttl = 8" "length checksum = 2"
    and "5 \<le> unat (vi AND 15)" "length options = 4 * (unat (vi AND 15) - 5)"
  shows "Packet_new h (ipv4_frame macs vi tos_to_ttl proto checksum src dst options s d payload) l =
    Some (expected_packet h (addresses l) vi proto src dst s d)"
proof -
  let ?raw = "ipv4_frame macs vi tos_to_ttl proto checksum src dst options s d payload"
  let ?off = "unat (vi AND 15) * 4 + 14"
  have ether: "\<exists>v. load16 ?raw 12 = Some v \<and> ntohs v = 0x0800"
    unfolding ipv4_frame_def by (rule load16_append) (simp add: assms)
  have ihl: "load8 ?raw 14 = Some vi"
    using load8_append [of "macs @ port_bytes 0x0800" 14] assms by (simp add: ipv4_frame_def)
  have pr: "load8 ?raw 23 = Some proto"
    using load8_append [of "macs @ port_bytes 0x0800 @ [vi] @ tos_to_ttl" 23] assms
    by (simp add: ipv4_frame_def)
  have sa: "load32 ?raw 26 = Some src"
    using load32_append [of "macs @ port_bytes 0x0800 @ [vi] @ tos_to_ttl @ [proto] @ checksum" 26] assms
    by (simp add: ipv4_frame_def)
  have da: "load32 ?raw 30 = Some dst"
    using load32_append [of "macs @ port_bytes 0x0800 @ [vi] @ tos_to_ttl @ [proto] @ checksum @
        addr_bytes src" 30] assms
    by (simp add: ipv4_frame_def)
  let ?hdr = "macs @ port_bytes 0x0800 @ [vi] @ tos_to_ttl @ [proto] @ checksum @
    addr_bytes src @ addr_bytes dst @ options"
  have len: "length ?hdr = ?off" using assms by simp
  have sp: "\<exists>v. load16 ?raw ?off = Some v \<and> ntohs v = s"
    using load16_append [OF len] by (simp add: ipv4_frame_def)
  have dp: "\<exists>v. load16 ?raw (?off + 2) = Some v \<and> ntohs v = d"
    using load16_append [of "?hdr @ port_bytes s" "?off + 2"] len by (simp add: ipv4_frame_def)
  obtain v vs vd where loads: "load16 ?raw 12 = Some v" "ntohs v = 0x0800"
    "load16 ?raw ?off = Some vs" "ntohs vs = s" "load16 ?raw (?off + 2) = Some vd" "ntohs vd = d"
    using ether sp dp by blast
  note known = parse_transport_expected [OF loads(3-6) refl refl, where A = "addresses l" and src = src and
      dst = dst and h = h and proto = proto]
  show ?thesis
  proof (cases "src \<in> addresses l \<or> dst \<in> addresses l")
    case True
    then show ?thesis
      using known loads ihl pr sa da assms(1)
      by (auto simp: Packet_new_def ipl.contains_iff local_direction_def Let_def)
  next
    case False
    then show ?thesis
      using loads ihl pr sa da assms(1)
      by (simp add: Packet_new_def ipl.contains_iff local_direction_def expected_packet_def
          Packet_init_def Let_def)
  qed
qed

text \<open>
  C12. Parsing inverts framing: on an Ethernet frame that carries an IPv4 packet with a header of
  5 to 15 words (options included), the constructor recovers the addresses, the protocol and the
  ports, decides the direction from the local addresses, and classifies and discards as the
  reference \<open>expected_packet\<close> says.
\<close>

theorem Packet_new_frame:
  assumes "ipl_ok l" and "length macs = 12" "length tos_to_ttl = 8" "length checksum = 2"
    and "5 \<le> unat (vi AND 15)" "length options = 4 * (unat (vi AND 15) - 5)"
  shows "Packet_new h (ipv4_frame macs vi tos_to_ttl proto checksum src dst options s d payload) l =
    Some (expected_packet h (addresses l) vi proto src dst s d)"
  using assms by (rule Packet_new_ipv4_frame)

definition sample_list :: IPList where
  "sample_list = \<lparr>mIPs = 0x0500000A # replicate 63 0, ipl_size = 1\<rparr>"

lemma ipl_ok_sample: "ipl_ok sample_list"
  by (simp add: ipl_ok_def sample_list_def)

lemma addresses_sample: "addresses sample_list = {0x0500000A}"
  by (simp add: addresses_def sample_list_def)

theorem Packet_new_frame_witness:
  "Packet_new \<lparr>ts_sec = 7, hdr_len = 60\<rparr>
     (ipv4_frame (replicate 12 0) 0x45 (replicate 8 0) 6 [0, 0] 0x08080808 0x0500000A [] 443 50000 [1]) sample_list =
   Some (expected_packet \<lparr>ts_sec = 7, hdr_len = 60\<rparr> {0x0500000A} 0x45 6 0x08080808 0x0500000A 443 50000)"
  using Packet_new_frame [OF ipl_ok_sample, where macs = "replicate 12 0" and
      tos_to_ttl = "replicate 8 0" and checksum = "[0, 0]" and vi = "0x45" and options = "[]" and
      h = "\<lparr>ts_sec = 7, hdr_len = 60\<rparr>" and proto = 6 and src = "0x08080808" and dst = "0x0500000A" and
      s = 443 and d = 50000 and payload = "[1]"]
  by (simp add: addresses_sample)

section \<open>The invariant of a parsed packet\<close>

text \<open>What holds of every packet that is not discarded, whatever the captured bytes were.\<close>

definition packet_ok :: "u32 set \<Rightarrow> Packet \<Rightarrow> bool" where
  "packet_ok A p \<longleftrightarrow>
     direction p = local_direction A (sip p) (dip p) \<and> direction p \<noteq> Direction_Unknown \<and>
     timestamp p \<noteq> None \<and>
     pkt_type p = (if protocol p = 6 then TCP else if protocol p = 17 then UDP else ICMP) \<and>
     protocol p \<in> {6, 17, 1} \<and> (protocol p = 17 \<longrightarrow> udp_kind (sport p) (dport p) = UDP)"

lemma parse_transport_ok:
  assumes "parse_transport raw off p = Some q" "\<not> discard q" "\<not> discard p"
    and "direction p = local_direction A (sip p) (dip p)" "direction p \<noteq> Direction_Unknown"
    and "timestamp p \<noteq> None"
  shows "packet_ok A q"
  using assms
  by (auto simp: parse_transport_def packet_ok_def classify_udp_eq split: bind_splits if_splits)

lemma Packet_new_ok:
  assumes "ipl_ok l" "Packet_new h raw l = Some p" "\<not> discard p"
  shows "packet_ok (addresses l) p"
  using assms
  by (auto simp: Packet_new_def ipl.contains_iff Let_def Packet_init_def local_direction_def
      split: bind_splits if_splits intro!: parse_transport_ok)

lemma parse_transport_discard:
  assumes "parse_transport raw off p = Some q" "packet_ok A q" "\<not> discard p"
  shows "\<not> discard q"
  using assms
  by (auto simp: parse_transport_def packet_ok_def classify_udp_eq split: bind_splits if_splits)

lemma Packet_new_discard_iff:
  assumes "ipl_ok l" "Packet_new h raw l = Some p"
  shows "\<not> discard p \<longleftrightarrow> packet_ok (addresses l) p"
proof
  assume "packet_ok (addresses l) p"
  then show "\<not> discard p"
    using assms
    by (auto simp: Packet_new_def Let_def Packet_init_def packet_ok_def [of _ "Packet_init\<lparr>discard := True\<rparr>"]
        split: bind_splits if_splits dest: parse_transport_discard) (simp_all add: packet_ok_def)
qed (rule Packet_new_ok [OF assms])

lemma parse_transport_fields:
  assumes "parse_transport raw off p = Some q"
  shows "pkt_len q = pkt_len p \<and> timestamp q = timestamp p \<and> sip q = sip p \<and> dip q = dip p \<and> protocol q = protocol p"
  using assms by (auto simp: parse_transport_def classify_udp_def Let_def split: bind_splits if_splits)

lemma Packet_new_fields:
  assumes "Packet_new h raw l = Some p" "\<not> discard p"
  shows "pkt_len p = hdr_len h" "timestamp p = Some (ts_sec h)"
    and "load32 raw 26 = Some (sip p)" "load32 raw 30 = Some (dip p)" "load8 raw 23 = Some (protocol p)"
  using assms
  by (auto simp: Packet_new_def Let_def dest!: parse_transport_fields split: bind_splits if_splits)

text \<open>
  C38. The constructor keeps exactly the packets that are of use: whatever bytes were captured, the
  packet is not discarded if and only if its direction is the one the local addresses give, it
  is TCP, ICMP or UDP, and its UDP ports are not those of DNS, mDNS, SSDP or NTP. A packet that is kept has
  the length and the time of the capture's header, and the addresses and the protocol that stand at
  their places in the frame.
\<close>

theorem Packet_new_keeps:
  assumes "ipl_ok l" "Packet_new h raw l = Some p"
  shows "(\<not> discard p \<longleftrightarrow> packet_ok (addresses l) p) \<and>
    (\<not> discard p \<longrightarrow> pkt_len p = hdr_len h \<and> timestamp p = Some (ts_sec h) \<and>
      load32 raw 26 = Some (sip p) \<and> load32 raw 30 = Some (dip p) \<and> load8 raw 23 = Some (protocol p))"
  using Packet_new_discard_iff [OF assms] Packet_new_fields [OF assms(2)] by blast

text \<open>A TCP packet for the local address.\<close>

theorem Packet_new_keeps_witness:
  "\<exists>p. Packet_new \<lparr>ts_sec = 7, hdr_len = 60\<rparr>
      (ipv4_frame (replicate 12 0) 0x45 (replicate 8 0) 6 [0, 0] 0x08080808 0x0500000A [] 443 50000 [1]) sample_list = Some p \<and>
    \<not> discard p \<and> packet_ok {0x0500000A} p \<and> pkt_len p = 60 \<and> timestamp p = Some 7"
proof -
  let ?h = "\<lparr>ts_sec = 7, hdr_len = 60\<rparr>"
  let ?raw = "ipv4_frame (replicate 12 0) 0x45 (replicate 8 0) 6 [0, 0] 0x08080808 0x0500000A [] 443 50000 [1]"
  let ?p = "expected_packet ?h {0x0500000A} 0x45 6 0x08080808 0x0500000A 443 50000"
  have new: "Packet_new ?h ?raw sample_list = Some ?p"
    using Packet_new_ipv4_frame [OF ipl_ok_sample, where macs = "replicate 12 0" and tos_to_ttl = "replicate 8 0" and
        checksum = "[0, 0]" and vi = "0x45" and options = "[]"]
    by (simp add: addresses_sample)
  have kept: "\<not> discard ?p" by (simp add: expected_packet_def local_direction_def)
  from Packet_new_keeps [OF ipl_ok_sample new] new kept show ?thesis by (simp add: addresses_sample)
qed

section \<open>Captured length\<close>

lemma load_None_iff:
  "load8 raw i = None \<longleftrightarrow> length raw \<le> i"
  "load16 raw i = None \<longleftrightarrow> length raw \<le> i + 1"
  "load32 raw i = None \<longleftrightarrow> length raw \<le> i + 3"
  by (auto simp: load8_def load16_def load32_def)

lemma parse_transport_in_bounds:
  "off + 4 \<le> length raw \<Longrightarrow> parse_transport raw off p \<noteq> None"
  by (auto simp: parse_transport_def load16_def)

text \<open>
  C39. The code never looks at the captured length. On an IPv4 frame the loads stay inside of the
  captured bytes when those contain the whole IP header and four bytes more, and leave them when
  fewer than the 34 bytes of a header without options were captured.
\<close>

theorem Packet_new_bounds:
  assumes "14 \<le> length raw" "map_option ntohs (load16 raw 12) = Some 0x0800"
  shows "(length raw < 34 \<longrightarrow> Packet_new h raw l = None) \<and>
    (34 \<le> length raw \<and> 14 + 4 * unat (raw ! 14 AND 15) + 4 \<le> length raw \<longrightarrow>
      Packet_new h raw l \<noteq> None)"
proof (intro conjI impI)
  obtain v where v: "load16 raw 12 = Some v" "ntohs v = 0x0800" using assms(2) by auto
  assume "length raw < 34"
  then show "Packet_new h raw l = None"
    using v by (cases "load8 raw 14"; cases "load32 raw 26")
      (simp_all add: Packet_new_def load32_def)
next
  obtain v where v: "load16 raw 12 = Some v" "ntohs v = 0x0800" using assms(2) by auto
  assume "34 \<le> length raw \<and> 14 + 4 * unat (raw ! 14 AND 15) + 4 \<le> length raw"
  then have len: "34 \<le> length raw" "14 + 4 * unat (raw ! 14 AND 15) + 4 \<le> length raw"
    by simp_all
  let ?off = "unat (raw ! 14 AND 15) * 4 + 14"
  have in_bounds: "parse_transport raw ?off p \<noteq> None" for p
    by (rule parse_transport_in_bounds) (use len in simp)
  have loads: "load8 raw 14 = Some (raw ! 14)" "load32 raw 26 \<noteq> None" "load32 raw 30 \<noteq> None"
    "load8 raw 23 = Some (raw ! 23)"
    using len by (simp_all add: load8_def load32_def)
  show "Packet_new h raw l \<noteq> None"
    using v loads in_bounds by (auto simp: Packet_new_def Let_def)
qed

theorem Packet_new_bounds_witness:
  "Packet_new \<lparr>ts_sec = 7, hdr_len = 60\<rparr> (replicate 12 0 @ [8, 0, 0x45] @ replicate 18 0) sample_list = None \<and>
   Packet_new \<lparr>ts_sec = 7, hdr_len = 60\<rparr> (replicate 12 0 @ [8, 0, 0x45] @ replicate 30 0) sample_list \<noteq> None"
  using Packet_new_bounds [of "replicate 12 0 @ [8, 0, 0x45] @ replicate 18 0"
      "\<lparr>ts_sec = 7, hdr_len = 60\<rparr>" sample_list]
    Packet_new_bounds [of "replicate 12 0 @ [8, 0, 0x45] @ replicate 30 0"
      "\<lparr>ts_sec = 7, hdr_len = 60\<rparr>" sample_list]
  by (simp add: load16_def ntohs_def nth_append)

end
