(* ===== verification/Negative_Cache.thy ===== *)
theory Negative_Cache
  imports Ntmd_Prelude
begin

text \<open>
  The contract that \<open>SocketIndex::get\<close> and \<open>ProcessIndex::get\<close> share: a map of what is known, a
  list of keys that were searched for in vain (\<open>mCouldNotFind\<close>) which is consulted first, and a
  search of \<open>/proc\<close> for a key that is in neither. The client, the process resolver, relies on
  the laws below and on the lemmas proved from them. \<open>None\<close> is a call that does not return; \<open>offers\<close>
  is what \<open>/proc\<close> has for a key.
\<close>

locale negative_cache =
  fixes lookup :: "'env \<Rightarrow> 'q \<Rightarrow> 's \<Rightarrow> ('v option \<times> 's) option"
    and key :: "'q \<Rightarrow> 'k"
    and searchable :: "'q \<Rightarrow> bool"
    and known :: "'s \<Rightarrow> 'k \<Rightarrow> 'v option"
    and missed :: "'s \<Rightarrow> 'k set"
    and forget :: "'s \<Rightarrow> 's"
    and ok :: "'s \<Rightarrow> bool"
    and offers :: "'env \<Rightarrow> 'k \<Rightarrow> 'v set"
  assumes lookup_missed: "key q \<in> missed s \<Longrightarrow> lookup e q s = Some (None, s)"
    and lookup_known: "ok s \<Longrightarrow> key q \<notin> missed s \<Longrightarrow> known s (key q) = Some v \<Longrightarrow> lookup e q s = Some (Some v, s)"
    and lookup_sound: "ok s \<Longrightarrow> lookup e q s = Some (Some v, s') \<Longrightarrow> known s' (key q) = Some v"
    and missed_found: "lookup e q s = Some (Some v, s') \<Longrightarrow> missed s' = missed s"
    and missed_None: "ok s \<Longrightarrow> lookup e q s = Some (None, s') \<Longrightarrow>
      missed s' = (if searchable q then insert (key q) (missed s) else missed s)"
    and ok_lookup: "ok s \<Longrightarrow> lookup e q s = Some (r, s') \<Longrightarrow> ok s'"
    and learned: "ok s \<Longrightarrow> lookup e q s = Some (r, s') \<Longrightarrow> known s' k \<noteq> known s k \<Longrightarrow> \<exists>v\<in>offers e k. known s' k = Some v"
    and missed_forget: "missed (forget s) = {}"
    and known_forget: "known (forget s) = known s"
    and ok_forget: "ok s \<Longrightarrow> ok (forget s)"
begin

lemma missed_mono: "ok s \<Longrightarrow> lookup e q s = Some (r, s') \<Longrightarrow> missed s \<subseteq> missed s'"
  by (cases r) (auto dest: missed_found missed_None split: if_splits)

lemma found_not_missed: "lookup e q s = Some (Some v, s') \<Longrightarrow> key q \<notin> missed s'"
  using lookup_missed missed_found by fastforce

text \<open>
  A sequence of uses: lookups, each with the state of \<open>/proc\<close> it meets, and clearings of the list (\<open>None\<close>).
\<close>

fun uses :: "('env \<times> 'q) option list \<Rightarrow> 's \<Rightarrow> 's option" where
  "uses [] s = Some s"
| "uses (None # es) s = uses es (forget s)"
| "uses (Some (e, q) # es) s = (case lookup e q s of None \<Rightarrow> None | Some (r, s') \<Rightarrow> uses es s')"

lemma ok_uses: "ok s \<Longrightarrow> uses es s = Some s' \<Longrightarrow> ok s'"
  by (induction es s rule: uses.induct) (auto dest: ok_lookup intro: ok_forget split: option.splits)

lemma missed_uses: "ok s \<Longrightarrow> uses es s = Some s' \<Longrightarrow> None \<notin> set es \<Longrightarrow> missed s \<subseteq> missed s'"
proof (induction es s rule: uses.induct)
  case (3 e q es s)
  then obtain r t where t: "lookup e q s = Some (r, t)" "uses es t = Some s'"
    by (auto split: option.splits)
  with 3 missed_mono [OF _ t(1)] ok_lookup [OF _ t(1)] show ?case by fastforce
qed simp_all

text \<open>
  A miss is remembered: whatever is looked up in between and however \<open>/proc\<close> changes, the same
  key is not found again and \<open>/proc\<close> is not read for it, until the list is cleared.
\<close>

lemma miss_sticky:
  assumes "ok s" "lookup e q s = Some (None, s1)" "searchable q" "uses es s1 = Some s2" "None \<notin> set es" "key q' = key q"
  shows "lookup e' q' s2 = Some (None, s2)"
proof -
  have "key q \<in> missed s1" using missed_None [OF assms(1,2)] assms(3) by simp
  then have "key q \<in> missed s2"
    using missed_uses [OF ok_lookup [OF assms(1,2)] assms(4,5)] by blast
  then show ?thesis using assms(6) by (intro lookup_missed) simp
qed

text \<open>
  A hit is remembered: no lookup of any key makes it a miss, and its value changes only to one
  that \<open>/proc\<close> has for the key at a lookup.
\<close>

lemma hit_lookup:
  assumes "ok s" "lookup e q s = Some (r, s')" "k \<notin> missed s" "known s k = Some v"
  shows "k \<notin> missed s'" "\<exists>v'. known s' k = Some v' \<and> (v' = v \<or> v' \<in> offers e k)"
proof -
  show "k \<notin> missed s'"
  proof (cases r)
    case None
    then have "key q \<noteq> k" using lookup_known [OF assms(1), of q v e] assms(2-4) by auto
    with None missed_None [OF assms(1)] assms(2,3) show ?thesis by auto
  qed (use missed_found assms(2,3) in auto)
  show "\<exists>v'. known s' k = Some v' \<and> (v' = v \<or> v' \<in> offers e k)"
    using learned [OF assms(1,2), of k] assms(4) by (cases "known s' k = known s k") auto
qed

lemma hit_uses:
  assumes "ok s" "uses es s = Some s'" "k \<notin> missed s" "known s k = Some v"
  shows "k \<notin> missed s' \<and> (\<exists>v'. known s' k = Some v' \<and> (v' = v \<or> (\<exists>e q. Some (e, q) \<in> set es \<and> v' \<in> offers e k)))"
  using assms
proof (induction es s arbitrary: v rule: uses.induct)
  case (2 es s)
  then have "k \<notin> missed s' \<and> (\<exists>v'. known s' k = Some v' \<and> (v' = v \<or> (\<exists>e q. Some (e, q) \<in> set es \<and> v' \<in> offers e k)))"
    by (simp add: ok_forget missed_forget known_forget)
  then show ?case by auto
next
  case (3 e q es s)
  then obtain r t where t: "lookup e q s = Some (r, t)" "uses es t = Some s'"
    by (auto split: option.splits)
  from hit_lookup [OF "3.prems"(1) t(1) "3.prems"(3,4)] obtain v1 where
    "k \<notin> missed t" "known t k = Some v1" "v1 = v \<or> v1 \<in> offers e k" by blast
  with "3.IH" [OF t(1) refl ok_lookup [OF "3.prems"(1) t(1)] t(2), of v1]
  show ?case by (metis list.set_intros)
qed auto

lemma hit_sticky:
  assumes "ok s" "lookup e q s = Some (Some v, s1)" "uses es s1 = Some s2" "key q' = key q"
  shows "\<exists>v'. lookup e' q' s2 = Some (Some v', s2) \<and> (v' = v \<or> (\<exists>e q'. Some (e, q') \<in> set es \<and> v' \<in> offers e (key q)))"
proof -
  note ok1 = ok_lookup [OF assms(1,2)]
  from hit_uses [OF ok1 assms(3) found_not_missed [OF assms(2)] lookup_sound [OF assms(1,2)]] obtain v' where
    v': "key q \<notin> missed s2" "known s2 (key q) = Some v'"
    "v' = v \<or> (\<exists>e q'. Some (e, q') \<in> set es \<and> v' \<in> offers e (key q))" by blast
  then show ?thesis using lookup_known [OF ok_uses [OF ok1 assms(3)], of q' v' e'] assms(4) by auto
qed

text \<open>An immediate second lookup of the same key finds the same and changes nothing.\<close>

lemma hit_repeats:
  "ok s \<Longrightarrow> lookup e q s = Some (Some v, s') \<Longrightarrow> key q' = key q \<Longrightarrow> lookup e' q' s' = Some (Some v, s')"
  using lookup_known [OF ok_lookup, of s e q "Some v" s' q' v e'] lookup_sound [of s e q v s']
    found_not_missed [of e q s v s'] by simp

text \<open>So whatever the first lookup of a searchable key gave, a second one gives again.\<close>

lemma lookup_repeats:
  assumes "ok s" "lookup e q s = Some (r, s')" "searchable q" "key q' = key q"
  shows "lookup e' q' s' = Some (r, s')"
proof (cases r)
  case None
  with assms miss_sticky [of s e q s' "[]" s' q' e'] show ?thesis by simp
next
  case (Some v)
  with assms hit_repeats [of s e q v s' q' e'] show ?thesis by simp
qed

text \<open>Clearing the list loses no knowledge.\<close>

lemma known_after_forget: "ok s \<Longrightarrow> known s (key q) = Some v \<Longrightarrow> lookup e q (forget s) = Some (Some v, forget s)"
  by (rule lookup_known) (auto simp: missed_forget known_forget ok_forget)

end

end
