(* ===== verification/Process_Index.thy ===== *)
theory Process_Index
  imports LRU_Array String_Util Negative_Cache
begin

text \<open>
  \<open>src/src/proc/ProcessIndex.cpp\<close>: the index from socket inodes to processes, filled from the
  file descriptor directories under \<open>/proc\<close>. What the code reads there is an argument of type
  \<open>proc_env\<close>; the calls that do not return (an exception of \<open>std::stoi\<close> that nothing catches,
  \<open>std::exit\<close>) are the left values of the results. The member mutex only separates \<open>get\<close> from the
  thread that clears the list of missed inodes, so each is one step.
\<close>

section \<open>The environment\<close>

text \<open>
  \<open>env_file\<close> is the content an \<open>std::ifstream\<close> reads, \<open>env_procdir\<close> and \<open>env_fddir\<close> are the entries
  \<open>readdir\<close> delivers for \<open>/proc\<close> and for a path, each with the answer to \<open>d_type == DT_DIR\<close> and
  \<open>d_type == DT_LNK\<close>, and \<open>env_readlink\<close> is the C string that stands in the buffer after a
  successful \<open>readlink\<close>: the target of the link, and, since \<open>readlink\<close> does not terminate it,
  whatever was behind it.
\<close>

record proc_env =
  env_file :: "string \<Rightarrow> string option"
  env_procdir :: "(string \<times> bool) list option"
  env_fddir :: "string \<Rightarrow> (string \<times> bool) list option"
  env_readlink :: "string \<Rightarrow> string option"
  env_exists :: "string \<Rightarrow> bool"

section \<open>The class\<close>

record Process =
  comm :: string
  proc_pid :: pid

record ProcessIndex =
  mProcessMap :: "inode \<Rightarrow> Process option"
  mLRUCache :: "pid LRUArray"
  pi_mCouldNotFind :: "inode \<Rightarrow> bool option"

type_synonym process_map = "inode \<Rightarrow> Process option"

definition first_line :: "string \<Rightarrow> string" where
  "first_line s = (case lines_of s of [] \<Rightarrow> [] | l # _ \<Rightarrow> l)"

text \<open>
  The loop over the entries of a file descriptor directory; \<open>link.substr(8)\<close> throws when the link
  has fewer than 8 characters.
\<close>

fun fd_loop :: "proc_env \<Rightarrow> string \<Rightarrow> Process \<Rightarrow> inode \<Rightarrow> (string \<times> bool) list \<Rightarrow> Process option \<Rightarrow> process_map \<Rightarrow>
    abort + (Process option \<times> process_map)" where
  "fd_loop env fdPath process target [] found m = Inr (found, m)"
| "fd_loop env fdPath process target ((name, is_link) # entries) found m =
     (if \<not> is_link then fd_loop env fdPath process target entries found m
      else case env_readlink env (fdPath @ ''/'' @ name) of
        None \<Rightarrow> fd_loop env fdPath process target entries found m
      | Some link \<Rightarrow>
          if prefix ''socket:'' link then
            if length link < 8 then Inl (Uncaught OutOfRange)
            else case stoi (drop 8 link) of
              Inl e \<Rightarrow> Inl (Uncaught e)
            | Inr v \<Rightarrow>
                let i = scast v
                in fd_loop env fdPath process target entries
                     (if i \<noteq> 0 \<and> i = target then Some process else found) (m(i \<mapsto> process))
          else fd_loop env fdPath process target entries found m)"

definition processPidDir :: "proc_env \<Rightarrow> string \<Rightarrow> string \<Rightarrow> pid \<Rightarrow> inode \<Rightarrow> process_map \<Rightarrow>
    abort + (Process option \<times> process_map)" where
  "processPidDir env fdPath pidStr p target m =
     (case env_file env (''/proc/'' @ pidStr @ ''/comm'') of
        None \<Rightarrow> Inr (None, m)
      | Some content \<Rightarrow>
          (case env_fddir env fdPath of
             None \<Rightarrow> Inr (None, m)
           | Some entries \<Rightarrow>
               fd_loop env fdPath \<lparr>comm = first_line content, proc_pid = p\<rparr> target entries None m))"

text \<open>\<open>std::to_string(pid)\<close> and the path of the file descriptor directory.\<close>

definition pid_string :: "pid \<Rightarrow> string" where
  "pid_string p = to_string (sint p)"

definition fd_path :: "string \<Rightarrow> string" where
  "fd_path pidStr = ''/proc/'' @ pidStr @ ''/fd''"

fun refresh_loop :: "proc_env \<Rightarrow> (string \<times> bool) list \<Rightarrow> pid LRUArray \<Rightarrow> process_map \<Rightarrow> abort + process_map" where
  "refresh_loop env [] cache m = Inr m"
| "refresh_loop env ((name, is_dir) # entries) cache m =
     (if \<not> is_dir \<or> \<not> isNumber name then refresh_loop env entries cache m
      else case stoi name of
        Inl e \<Rightarrow> Inl (Uncaught e)
      | Inr p \<Rightarrow>
          if LRUArray_contains p cache then refresh_loop env entries cache m
          else case processPidDir env (fd_path name) name p 0 m of
            Inl a \<Rightarrow> Inl a
          | Inr (_, m') \<Rightarrow> refresh_loop env entries cache m')"

definition ProcessIndex_refresh :: "proc_env \<Rightarrow> ProcessIndex \<Rightarrow> abort + ProcessIndex" where
  "ProcessIndex_refresh env s =
     (case env_procdir env of
        None \<Rightarrow> Inl (Exited 1)
      | Some entries \<Rightarrow>
          (case refresh_loop env entries (mLRUCache s) Map.empty of
             Inl a \<Rightarrow> Inl a
           | Inr m \<Rightarrow> Inr (s\<lparr>mProcessMap := m\<rparr>)))"

definition ProcessIndex_new :: "proc_env \<Rightarrow> i32 \<Rightarrow> abort + ProcessIndex" where
  "ProcessIndex_new env cacheSize =
     ProcessIndex_refresh env
       \<lparr>mProcessMap = Map.empty, mLRUCache = LRUArray_new (scast cacheSize), pi_mCouldNotFind = Map.empty\<rparr>"

text \<open>One round of the detached thread.\<close>

definition ProcessIndex_forget :: "ProcessIndex \<Rightarrow> ProcessIndex" where
  "ProcessIndex_forget s = s\<lparr>pi_mCouldNotFind := Map.empty\<rparr>"

text \<open>
  The loop of \<open>searchCache\<close>: the pids are those of the cache; a pid whose directory is gone is
  noted as expired. The expired pids are erased after the loop, unless it returned before.
\<close>

fun cache_loop :: "proc_env \<Rightarrow> inode \<Rightarrow> pid list \<Rightarrow> pid list \<Rightarrow> process_map \<Rightarrow>
    abort + (Process option \<times> pid list \<times> process_map)" where
  "cache_loop env target [] expired m = Inr (None, expired, m)"
| "cache_loop env target (p # pids) expired m =
     (if \<not> env_exists env (fd_path (pid_string p)) then cache_loop env target pids (expired @ [p]) m
      else case processPidDir env (fd_path (pid_string p)) (pid_string p) p target m of
        Inl a \<Rightarrow> Inl a
      | Inr (Some q, m') \<Rightarrow> Inr (Some q, [], m')
      | Inr (None, m') \<Rightarrow> cache_loop env target pids expired m')"

definition searchCache :: "proc_env \<Rightarrow> inode \<Rightarrow> ProcessIndex \<Rightarrow> abort + (Process option \<times> ProcessIndex)" where
  "searchCache env target s =
     (case cache_loop env target (LRUArray_iterator (mLRUCache s)) [] (mProcessMap s) of
        Inl a \<Rightarrow> Inl a
      | Inr (found, expired, m) \<Rightarrow>
          Inr (found, s\<lparr>mProcessMap := m,
                        mLRUCache := foldl (\<lambda>c p. LRUArray_erase p c) (mLRUCache s) expired\<rparr>))"

text \<open>Insertion into the \<open>std::set\<close> ordered by \<open>std::greater\<close>.\<close>

fun insert_greater :: "pid \<Rightarrow> pid list \<Rightarrow> pid list" where
  "insert_greater p [] = [p]"
| "insert_greater p (q # qs) =
     (if sint q < sint p then p # q # qs else if p = q then q # qs else q # insert_greater p qs)"

fun collect_pids :: "(string \<times> bool) list \<Rightarrow> pid LRUArray \<Rightarrow> pid list \<Rightarrow> abort + pid list" where
  "collect_pids [] cache acc = Inr acc"
| "collect_pids ((name, is_dir) # entries) cache acc =
     (if \<not> is_dir \<or> \<not> isNumber name then collect_pids entries cache acc
      else case stoi name of
        Inl e \<Rightarrow> Inl (Uncaught e)
      | Inr p \<Rightarrow>
          if LRUArray_contains p cache then collect_pids entries cache acc
          else collect_pids entries cache (insert_greater p acc))"

fun search_loop :: "proc_env \<Rightarrow> inode \<Rightarrow> pid list \<Rightarrow> process_map \<Rightarrow> abort + (Process option \<times> process_map)" where
  "search_loop env target [] m = Inr (None, m)"
| "search_loop env target (p # pids) m =
     (case processPidDir env (fd_path (pid_string p)) (pid_string p) p target m of
        Inl a \<Rightarrow> Inl a
      | Inr (Some q, m') \<Rightarrow> Inr (Some q, m')
      | Inr (None, m') \<Rightarrow> search_loop env target pids m')"

definition ProcessIndex_search :: "proc_env \<Rightarrow> inode \<Rightarrow> ProcessIndex \<Rightarrow> abort + (Process option \<times> ProcessIndex)" where
  "ProcessIndex_search env target s =
     (case searchCache env target s of
        Inl a \<Rightarrow> Inl a
      | Inr (Some q, s) \<Rightarrow> Inr (Some q, s)
      | Inr (None, s) \<Rightarrow>
          (case env_procdir env of
             None \<Rightarrow> Inl (Exited 1)
           | Some entries \<Rightarrow>
               (case collect_pids entries (mLRUCache s) [] of
                  Inl a \<Rightarrow> Inl a
                | Inr sortedProcDir \<Rightarrow>
                    (case search_loop env target sortedProcDir (mProcessMap s) of
                       Inl a \<Rightarrow> Inl a
                     | Inr (found, m) \<Rightarrow> Inr (found, s\<lparr>mProcessMap := m\<rparr>)))))"

definition ProcessIndex_get :: "proc_env \<Rightarrow> inode \<Rightarrow> ProcessIndex \<Rightarrow> abort + (Process option \<times> ProcessIndex)" where
  "ProcessIndex_get env i s =
     (if pi_mCouldNotFind s i \<noteq> None then Inr (None, s)
      else case mProcessMap s i of
        Some p \<Rightarrow> Inr (Some p, s)
      | None \<Rightarrow>
          (case ProcessIndex_search env i s of
             Inl a \<Rightarrow> Inl a
           | Inr (Some p, s) \<Rightarrow> Inr (Some p, s\<lparr>mLRUCache := LRUArray_update (proc_pid p) (mLRUCache s)\<rparr>)
           | Inr (None, s) \<Rightarrow> Inr (None, s\<lparr>pi_mCouldNotFind := (pi_mCouldNotFind s)(i \<mapsto> True)\<rparr>)))"

section \<open>Scanning one process\<close>

text \<open>What one entry of a file descriptor directory contributes.\<close>

definition entry_inode :: "proc_env \<Rightarrow> string \<Rightarrow> string \<times> bool \<Rightarrow> (abort + inode) option" where
  "entry_inode env fdPath e =
     (if \<not> snd e then None
      else case env_readlink env (fdPath @ ''/'' @ fst e) of
        None \<Rightarrow> None
      | Some link \<Rightarrow>
          if prefix ''socket:'' link then
            Some (if length link < 8 then Inl (Uncaught OutOfRange)
                  else case stoi (drop 8 link) of Inl x \<Rightarrow> Inl (Uncaught x) | Inr v \<Rightarrow> Inr (scast v))
          else None)"

definition owned :: "proc_env \<Rightarrow> string \<Rightarrow> (string \<times> bool) list \<Rightarrow> inode set" where
  "owned env fdPath entries = {i. \<exists>e\<in>set entries. entry_inode env fdPath e = Some (Inr i)}"

lemma owned_simps [simp]:
  "owned env fdPath [] = {}"
  "owned env fdPath (e # entries) =
     {i. entry_inode env fdPath e = Some (Inr i)} \<union> owned env fdPath entries"
  by (auto simp: owned_def)

lemma fd_loop_Cons:
  "fd_loop env fdPath process target (e # entries) found m =
     (case entry_inode env fdPath e of
        None \<Rightarrow> fd_loop env fdPath process target entries found m
      | Some (Inl a) \<Rightarrow> Inl a
      | Some (Inr i) \<Rightarrow> fd_loop env fdPath process target entries
          (if i \<noteq> 0 \<and> i = target then Some process else found) (m(i \<mapsto> process)))"
  by (cases e) (simp add: entry_inode_def Let_def split: option.split sum.split)

lemma fd_loop_Inr:
  assumes "fd_loop env fdPath process target entries found m = Inr (f, m')"
  shows "f = (if target \<noteq> 0 \<and> target \<in> owned env fdPath entries then Some process else found) \<and>
    m' = (\<lambda>i. if i \<in> owned env fdPath entries then Some process else m i)"
  using assms
proof (induction entries arbitrary: found m)
  case Nil
  then show ?case by simp
next
  case (Cons e entries)
  show ?case
  proof (cases "entry_inode env fdPath e")
    case None
    with Cons show ?thesis by (simp add: fd_loop_Cons del: fd_loop.simps)
  next
    case (Some x)
    with Cons.prems obtain i where i: "x = Inr i" by (cases x) (auto simp: fd_loop_Cons simp del: fd_loop.simps)
    have "fd_loop env fdPath process target entries
        (if i \<noteq> 0 \<and> i = target then Some process else found) (m(i \<mapsto> process)) = Inr (f, m')"
      using Cons.prems Some i by (simp add: fd_loop_Cons del: fd_loop.simps)
    from Cons.IH [OF this] show ?thesis
      using Some i by (auto simp: fun_eq_iff)
  qed
qed

lemma fd_loop_Inl:
  "(\<exists>a. fd_loop env fdPath process target entries found m = Inl a) \<longleftrightarrow>
   (\<exists>e\<in>set entries. \<exists>a. entry_inode env fdPath e = Some (Inl a))"
proof (induction entries arbitrary: found m)
  case Nil
  then show ?case by simp
next
  case (Cons e entries)
  then show ?case
    by (cases "entry_inode env fdPath e" rule: option.exhaust; simp add: fd_loop_Cons del: fd_loop.simps
        split: sum.split)
qed

text \<open>The process a directory scan would report, and when it reports one.\<close>

definition scanned :: "proc_env \<Rightarrow> string \<Rightarrow> string \<Rightarrow> pid \<Rightarrow> (Process \<times> inode set) option" where
  "scanned env fdPath pidStr p =
     (case (env_file env (''/proc/'' @ pidStr @ ''/comm''), env_fddir env fdPath) of
        (Some content, Some entries) \<Rightarrow>
          Some (\<lparr>comm = first_line content, proc_pid = p\<rparr>, owned env fdPath entries)
      | _ \<Rightarrow> None)"

definition serves :: "proc_env \<Rightarrow> inode \<Rightarrow> pid \<Rightarrow> Process option" where
  "serves env target p =
     (case scanned env (fd_path (pid_string p)) (pid_string p) p of
        None \<Rightarrow> None
      | Some (process, inodes) \<Rightarrow> if target \<noteq> 0 \<and> target \<in> inodes then Some process else None)"

lemma processPidDir_Inr:
  assumes "processPidDir env fdPath pidStr p target m = Inr (f, m')"
  shows "case scanned env fdPath pidStr p of
      None \<Rightarrow> f = None \<and> m' = m
    | Some (process, inodes) \<Rightarrow> f = (if target \<noteq> 0 \<and> target \<in> inodes then Some process else None) \<and>
        m' = (\<lambda>i. if i \<in> inodes then Some process else m i)"
  using assms by (auto simp: processPidDir_def scanned_def split: option.splits dest: fd_loop_Inr)

lemma processPidDir_serves:
  assumes "processPidDir env (fd_path (pid_string p)) (pid_string p) p target m = Inr (f, m')"
  shows "f = serves env target p" and "f = Some q \<Longrightarrow> m' target = Some q \<and> proc_pid q = p"
  using processPidDir_Inr [OF assms]
  by (auto simp: serves_def scanned_def split: option.splits prod.splits if_splits)

section \<open>The searches\<close>

definition alive :: "proc_env \<Rightarrow> pid list \<Rightarrow> pid list" where
  "alive env ps = [p \<leftarrow> ps. env_exists env (fd_path (pid_string p))]"

lemma cache_loop_Inr:
  assumes "cache_loop env target ps expired m = Inr (f, ex, m')"
  shows "f = first_some (serves env target) (alive env ps) \<and>
    ex = (if f = None then expired @ [p \<leftarrow> ps. \<not> env_exists env (fd_path (pid_string p))] else []) \<and>
    (\<forall>q. f = Some q \<longrightarrow> m' target = Some q)"
  using assms
proof (induction ps arbitrary: expired m)
  case Nil
  then show ?case by (simp add: alive_def)
next
  case (Cons p ps)
  show ?case
  proof (cases "env_exists env (fd_path (pid_string p))")
    case False
    with Cons.prems have "cache_loop env target ps (expired @ [p]) m = Inr (f, ex, m')" by simp
    from Cons.IH [OF this] False show ?thesis by (simp add: alive_def)
  next
    case True
    then obtain g m1 where g: "processPidDir env (fd_path (pid_string p)) (pid_string p) p target m = Inr (g, m1)"
      using Cons.prems by (auto split: sum.splits)
    note serves = processPidDir_serves [OF g]
    show ?thesis
    proof (cases g)
      case (Some q)
      with True g Cons.prems have "f = Some q" "ex = []" "m' = m1" by auto
      with Some True serves show ?thesis by (simp add: alive_def)
    next
      case None
      with True g Cons.prems have "cache_loop env target ps expired m1 = Inr (f, ex, m')" by simp
      from Cons.IH [OF this] None True serves show ?thesis by (simp add: alive_def)
    qed
  qed
qed

lemma search_loop_Inr:
  assumes "search_loop env target ps m = Inr (f, m')"
  shows "f = first_some (serves env target) ps \<and> (\<forall>q. f = Some q \<longrightarrow> m' target = Some q)"
  using assms
proof (induction ps arbitrary: m)
  case Nil
  then show ?case by simp
next
  case (Cons p ps)
  then obtain g m1 where g: "processPidDir env (fd_path (pid_string p)) (pid_string p) p target m = Inr (g, m1)"
    by (auto split: sum.splits)
  note serves = processPidDir_serves [OF g]
  show ?case
  proof (cases g)
    case None
    with g Cons.prems have "search_loop env target ps m1 = Inr (f, m')" by simp
    from Cons.IH [OF this] None serves show ?thesis by simp
  next
    case (Some q)
    with g Cons.prems have "f = Some q" "m' = m1" by auto
    with Some serves show ?thesis by simp
  qed
qed

definition descending :: "pid list \<Rightarrow> bool" where
  "descending = sorted_wrt (\<lambda>p q. sint q < sint p)"

lemma set_insert_greater [simp]: "set (insert_greater p qs) = insert p (set qs)"
  by (induction qs) auto

lemma descending_insert_greater: "descending qs \<Longrightarrow> descending (insert_greater p qs)"
  unfolding descending_def
proof (induction qs)
  case (Cons q qs)
  have "sint p < sint q" if "\<not> sint q < sint p" "p \<noteq> q"
    using that by (metis linorder_neqE_linordered_idom signed_word_eqI)
  with Cons show ?case by auto
qed simp

definition numeric_pids :: "(string \<times> bool) list \<Rightarrow> pid set" where
  "numeric_pids entries = {p. \<exists>name. (name, True) \<in> set entries \<and> isNumber name \<and> stoi name = Inr p}"

lemma collect_pids_Inr:
  assumes "collect_pids entries cache acc = Inr ps"
  shows "set ps = set acc \<union> (numeric_pids entries - set (LRUArray_iterator cache)) \<and>
    (descending acc \<longrightarrow> descending ps)"
  using assms
proof (induction entries cache acc rule: collect_pids.induct)
  case (1 cache acc)
  then show ?case by (simp add: numeric_pids_def)
next
  case (2 name is_dir entries cache acc)
  show ?case
  proof (cases "is_dir \<and> isNumber name")
    case False
    then have "numeric_pids ((name, is_dir) # entries) = numeric_pids entries"
      by (auto simp: numeric_pids_def)
    with 2 False show ?thesis by auto
  next
    case True
    with "2.prems" obtain p where p: "stoi name = Inr p" by (auto split: sum.splits)
    have n: "numeric_pids ((name, is_dir) # entries) = insert p (numeric_pids entries)"
      using True p by (auto simp: numeric_pids_def)
    show ?thesis
    proof (cases "LRUArray_contains p cache")
      case c: True
      with 2 True p n show ?thesis by (simp add: lru.contains_items)
    next
      case c: False
      with 2 True p n show ?thesis
        using descending_insert_greater [of acc p] by (auto simp: lru.contains_items)
    qed
  qed
qed

text \<open>The order in which a search looks at the processes, and what it finds.\<close>

definition search_result :: "proc_env \<Rightarrow> inode \<Rightarrow> pid list \<Rightarrow> Process option \<Rightarrow> bool" where
  "search_result env target cached r \<longleftrightarrow>
     (case first_some (serves env target) (alive env cached) of
        Some q \<Rightarrow> r = Some q
      | None \<Rightarrow> \<exists>entries ps. env_procdir env = Some entries \<and> descending ps \<and>
          set ps = numeric_pids entries - set (alive env cached) \<and> r = first_some (serves env target) ps)"

lemma searchCache_Inr:
  assumes "searchCache env target s = Inr (f, s')" "lru_ok (mLRUCache s)"
  shows "f = first_some (serves env target) (alive env (mDeque (mLRUCache s))) \<and>
    mDeque (mLRUCache s') = (if f = None then alive env (mDeque (mLRUCache s)) else mDeque (mLRUCache s)) \<and>
    lru_ok (mLRUCache s') \<and> mSize (mLRUCache s') = mSize (mLRUCache s) \<and>
    pi_mCouldNotFind s' = pi_mCouldNotFind s \<and> (\<forall>q. f = Some q \<longrightarrow> mProcessMap s' target = Some q)"
proof -
  obtain ex m where l: "cache_loop env target (mDeque (mLRUCache s)) [] (mProcessMap s) = Inr (f, ex, m)"
    and s': "s' = s\<lparr>mProcessMap := m, mLRUCache := foldl (\<lambda>c p. LRUArray_erase p c) (mLRUCache s) ex\<rparr>"
    using assms(1) by (auto simp: searchCache_def LRUArray_iterator_def split: sum.splits)
  note c = cache_loop_Inr [OF l]
  note e = lru.items_erase_all [OF assms(2), of ex, unfolded LRUArray_iterator_def]
    and ok = lru.ok_erase_all [OF assms(2), of ex]
    and cap = lru.capacity_erase_all [of "mLRUCache s" ex]
  have "[y \<leftarrow> mDeque (mLRUCache s). y \<notin> set ex] =
      (if f = None then alive env (mDeque (mLRUCache s)) else mDeque (mLRUCache s))"
    using c by (auto simp: alive_def intro: filter_cong)
  then show ?thesis
    using c e ok cap s' by (auto simp: word_unat_eq_iff)
qed

lemma ProcessIndex_search_Inr:
  assumes "ProcessIndex_search env target s = Inr (r, s')" "lru_ok (mLRUCache s)"
  shows "search_result env target (mDeque (mLRUCache s)) r \<and>
    lru_ok (mLRUCache s') \<and> mSize (mLRUCache s') = mSize (mLRUCache s) \<and>
    pi_mCouldNotFind s' = pi_mCouldNotFind s \<and> (\<forall>q. r = Some q \<longrightarrow> mProcessMap s' target = Some q)"
proof -
  obtain f t where t: "searchCache env target s = Inr (f, t)"
    using assms(1) by (auto simp: ProcessIndex_search_def split: sum.splits)
  note c = searchCache_Inr [OF t assms(2)]
  show ?thesis
  proof (cases f)
    case (Some q)
    with assms(1) t have "r = Some q" "s' = t" by (auto simp: ProcessIndex_search_def)
    moreover have "first_some (serves env target) (alive env (mDeque (mLRUCache s))) = Some q"
      using c Some by simp
    ultimately show ?thesis using c Some by (simp add: search_result_def)
  next
    case None
    then obtain entries ps m where p: "env_procdir env = Some entries"
      "collect_pids entries (mLRUCache t) [] = Inr ps"
      "search_loop env target ps (mProcessMap t) = Inr (r, m)" "s' = t\<lparr>mProcessMap := m\<rparr>"
      using assms(1) t by (auto simp: ProcessIndex_search_def split: option.splits sum.splits)
    have "set ps = numeric_pids entries - set (alive env (mDeque (mLRUCache s)))" "descending ps"
      using collect_pids_Inr [OF p(2)] c None by (auto simp: LRUArray_iterator_def descending_def)
    with c None p search_loop_Inr [OF p(3)] show ?thesis
      by (auto simp: search_result_def split: option.split)
  qed
qed

section \<open>What a lookup does\<close>

definition pi_ok :: "ProcessIndex \<Rightarrow> bool" where
  "pi_ok s \<longleftrightarrow> lru_ok (mLRUCache s)"

lemma serves_pid: "serves env i p = Some q \<Longrightarrow> proc_pid q = p"
  by (auto simp: serves_def scanned_def split: option.splits if_splits)

lemma search_result_Some:
  assumes "search_result env i cached (Some q)"
  shows "serves env i (proc_pid q) = Some q"
proof -
  have "first_some (serves env i) ps = Some q \<Longrightarrow> ?thesis" for ps
    using first_some_SomeD [of "serves env i" ps q] serves_pid by auto
  with assms show ?thesis
    unfolding search_result_def by (cases "first_some (serves env i) (alive env cached)") auto
qed

lemma search_result_None:
  assumes "search_result env i cached None"
  shows "\<exists>entries. env_procdir env = Some entries \<and>
    (\<forall>p \<in> set (alive env cached) \<union> numeric_pids entries. serves env i p = None)"
proof -
  have none: "first_some (serves env i) (alive env cached) = None"
    using assms by (auto simp: search_result_def split: option.splits)
  then obtain entries ps where "env_procdir env = Some entries"
    "set ps = numeric_pids entries - set (alive env cached)" "first_some (serves env i) ps = None"
    using assms by (auto simp: search_result_def)
  with none show ?thesis by (auto simp: first_some_None_iff)
qed

lemma ProcessIndex_get_cases:
  assumes "ProcessIndex_get env i s = Inr (r, s')" "pi_ok s"
  obtains (missed) "pi_mCouldNotFind s i \<noteq> None" "r = None" "s' = s"
    | (known) q where "pi_mCouldNotFind s i = None" "mProcessMap s i = Some q" "r = Some q" "s' = s"
    | (found) q t where "pi_mCouldNotFind s i = None" "mProcessMap s i = None"
        "search_result env i (mDeque (mLRUCache s)) (Some q)" "r = Some q"
        "s' = t\<lparr>mLRUCache := LRUArray_update (proc_pid q) (mLRUCache t)\<rparr>"
        "lru_ok (mLRUCache t)" "mSize (mLRUCache t) = mSize (mLRUCache s)"
        "pi_mCouldNotFind t = pi_mCouldNotFind s" "mProcessMap t i = Some q"
    | (not_found) t where "pi_mCouldNotFind s i = None" "mProcessMap s i = None"
        "search_result env i (mDeque (mLRUCache s)) None" "r = None"
        "s' = t\<lparr>pi_mCouldNotFind := (pi_mCouldNotFind s)(i \<mapsto> True)\<rparr>"
        "lru_ok (mLRUCache t)" "mSize (mLRUCache t) = mSize (mLRUCache s)"
proof (cases "pi_mCouldNotFind s i = None \<and> mProcessMap s i = None")
  case False
  with assms show ?thesis
    by (cases "pi_mCouldNotFind s i"; cases "mProcessMap s i")
      (auto simp: ProcessIndex_get_def intro: missed known)
next
  case True
  then obtain f t where t: "ProcessIndex_search env i s = Inr (f, t)"
    using assms(1) by (auto simp: ProcessIndex_get_def split: sum.splits)
  note c = ProcessIndex_search_Inr [OF t] assms(2) [unfolded pi_ok_def]
  show ?thesis
  proof (cases f)
    case None
    with True t assms(1) have "r = None" "s' = t\<lparr>pi_mCouldNotFind := (pi_mCouldNotFind t)(i \<mapsto> True)\<rparr>"
      by (auto simp: ProcessIndex_get_def)
    with True None c show ?thesis by (intro not_found [of t]) simp_all
  next
    case (Some q)
    with True t assms(1) have "r = Some q" "s' = t\<lparr>mLRUCache := LRUArray_update (proc_pid q) (mLRUCache t)\<rparr>"
      by (auto simp: ProcessIndex_get_def)
    with True Some c show ?thesis by (intro found [of q t]) simp_all
  qed
qed

text \<open>The lookup as the shared contract has it; a call that does not return is \<open>None\<close>.\<close>

definition process_lookup :: "proc_env \<Rightarrow> inode \<Rightarrow> ProcessIndex \<Rightarrow> (Process option \<times> ProcessIndex) option" where
  "process_lookup env i s = (case ProcessIndex_get env i s of Inl _ \<Rightarrow> None | Inr r \<Rightarrow> Some r)"

lemma process_lookup_iff: "process_lookup env i s = Some r \<longleftrightarrow> ProcessIndex_get env i s = Inr r"
  by (simp add: process_lookup_def split: sum.splits)

lemma missed_get_found:
  assumes "ProcessIndex_get env i s = Inr (Some q, s')"
  shows "pi_mCouldNotFind s' = pi_mCouldNotFind s"
proof -
  have sc: "searchCache env i s = Inr (f, t) \<Longrightarrow> pi_mCouldNotFind t = pi_mCouldNotFind s" for f t
    by (auto simp: searchCache_def split: sum.splits)
  then have "ProcessIndex_search env i s = Inr (f, t) \<Longrightarrow> pi_mCouldNotFind t = pi_mCouldNotFind s" for f t
    by (auto simp: ProcessIndex_search_def split: sum.splits option.splits)
  with assms show ?thesis
    by (auto simp: ProcessIndex_get_def split: if_splits option.splits sum.splits)
qed

text \<open>The processes that have an inode among their descriptors, whichever directory is scanned.\<close>

definition process_offers :: "proc_env \<Rightarrow> inode \<Rightarrow> Process set" where
  "process_offers env i = {q. \<exists>p inodes. scanned env (fd_path (pid_string p)) (pid_string p) p = Some (q, inodes) \<and> i \<in> inodes}"

text \<open>Every entry that a scan changes is one of these.\<close>

definition learns :: "proc_env \<Rightarrow> process_map \<Rightarrow> process_map \<Rightarrow> bool" where
  "learns env m m' \<longleftrightarrow> (\<forall>i. m' i \<noteq> m i \<longrightarrow> (\<exists>q\<in>process_offers env i. m' i = Some q))"

lemma learns_refl [simp]: "learns env m m"
  by (simp add: learns_def)

lemma learns_trans: "learns env m m1 \<Longrightarrow> learns env m1 m' \<Longrightarrow> learns env m m'"
  unfolding learns_def by metis

lemma processPidDir_learns:
  "processPidDir env (fd_path (pid_string p)) (pid_string p) p target m = Inr (f, m') \<Longrightarrow> learns env m m'"
  using processPidDir_Inr [of env "fd_path (pid_string p)" "pid_string p" p target m f m']
  by (fastforce simp: learns_def process_offers_def split: option.splits if_splits)

lemma cache_loop_learns: "cache_loop env target ps expired m = Inr (f, ex, m') \<Longrightarrow> learns env m m'"
  by (induction env target ps expired m rule: cache_loop.induct)
    (fastforce dest!: processPidDir_learns intro: learns_trans split: if_splits sum.splits option.splits)+

lemma search_loop_learns: "search_loop env target ps m = Inr (f, m') \<Longrightarrow> learns env m m'"
  by (induction env target ps m rule: search_loop.induct)
    (fastforce dest!: processPidDir_learns intro: learns_trans split: sum.splits option.splits)+

lemma ProcessIndex_get_learns:
  assumes "ProcessIndex_get env i s = Inr (r, s')"
  shows "learns env (mProcessMap s) (mProcessMap s')"
proof -
  have "learns env (mProcessMap s) (mProcessMap t)" if "searchCache env i s = Inr (f, t)" for f t
    using that by (auto simp: searchCache_def dest: cache_loop_learns split: sum.splits)
  then have "learns env (mProcessMap s) (mProcessMap t)" if "ProcessIndex_search env i s = Inr (f, t)" for f t
    using that by (fastforce simp: ProcessIndex_search_def dest!: search_loop_learns intro: learns_trans split: sum.splits option.splits)
  with assms show ?thesis by (auto simp: ProcessIndex_get_def split: if_splits sum.splits option.splits)
qed

interpretation processes: negative_cache process_lookup "\<lambda>i. i" "\<lambda>_. True" mProcessMap
  "\<lambda>s. dom (pi_mCouldNotFind s)" ProcessIndex_forget pi_ok process_offers
proof unfold_locales
  fix i and s :: ProcessIndex and e
  assume "i \<in> dom (pi_mCouldNotFind s)"
  then show "process_lookup e i s = Some (None, s)"
    by (auto simp: process_lookup_iff ProcessIndex_get_def)
next
  fix s :: ProcessIndex and i q e
  assume "i \<notin> dom (pi_mCouldNotFind s)" "mProcessMap s i = Some q"
  then show "process_lookup e i s = Some (Some q, s)"
    by (auto simp: process_lookup_iff ProcessIndex_get_def)
next
  fix s s' :: ProcessIndex and e i q
  assume "pi_ok s" "process_lookup e i s = Some (Some q, s')"
  then show "mProcessMap s' i = Some q"
    unfolding process_lookup_iff by (auto elim!: ProcessIndex_get_cases)
next
  fix s s' :: ProcessIndex and e i q
  assume "process_lookup e i s = Some (Some q, s')"
  then show "dom (pi_mCouldNotFind s') = dom (pi_mCouldNotFind s)"
    by (simp add: process_lookup_iff missed_get_found)
next
  fix s s' :: ProcessIndex and e i
  assume "pi_ok s" "process_lookup e i s = Some (None, s')"
  then show "dom (pi_mCouldNotFind s') = (if True then insert i (dom (pi_mCouldNotFind s)) else dom (pi_mCouldNotFind s))"
    unfolding process_lookup_iff by (auto elim!: ProcessIndex_get_cases)
next
  fix s s' :: ProcessIndex and e i r
  assume "pi_ok s" "process_lookup e i s = Some (r, s')"
  then show "pi_ok s'"
    unfolding process_lookup_iff by (auto elim!: ProcessIndex_get_cases simp: pi_ok_def lru_ok_update)
next
  fix s s' :: ProcessIndex and e i r k
  assume "process_lookup e i s = Some (r, s')" "mProcessMap s' k \<noteq> mProcessMap s k"
  then show "\<exists>q\<in>process_offers e k. mProcessMap s' k = Some q"
    using ProcessIndex_get_learns by (simp add: process_lookup_iff learns_def)
qed (auto simp: ProcessIndex_forget_def pi_ok_def)

lemma ProcessIndex_new_ok: "ProcessIndex_new env n = Inr s \<Longrightarrow> pi_ok s"
  by (auto simp: ProcessIndex_new_def ProcessIndex_refresh_def pi_ok_def split: option.splits sum.splits)

section \<open>Properties\<close>

text \<open>A small \<open>/proc\<close>: the process 10 (ssh) owns the socket 42, the process 20 (curl) the socket 77.\<close>

definition sample_env :: proc_env where
  "sample_env = \<lparr>
     env_file = (\<lambda>path. if path = ''/proc/10/comm'' then Some (''ssh'' @ [CHR 0x0A])
                        else if path = ''/proc/20/comm'' then Some (''curl'' @ [CHR 0x0A]) else None),
     env_procdir = Some [(''self'', False), (''10'', True), (''tty'', True), (''20'', True)],
     env_fddir = (\<lambda>path. if path = ''/proc/10/fd'' then Some [(''0'', False), (''3'', True)]
                         else if path = ''/proc/20/fd'' then Some [(''5'', True)] else None),
     env_readlink = (\<lambda>path. if path = ''/proc/10/fd/3'' then Some ''socket:[42]''
                            else if path = ''/proc/20/fd/5'' then Some ''socket:[77]x'' else None),
     env_exists = (\<lambda>path. path = ''/proc/10/fd'' \<or> path = ''/proc/20/fd'')\<rparr>"

definition sample_index :: ProcessIndex where
  "sample_index = \<lparr>mProcessMap = Map.empty, mLRUCache = LRUArray_new 5, pi_mCouldNotFind = Map.empty\<rparr>"

lemma sample_index_ok: "pi_ok sample_index" "pi_mCouldNotFind sample_index i = None"
  "mProcessMap sample_index i = None"
  by (simp_all add: pi_ok_def sample_index_def)

lemma sample_strings: "to_string 10 = ''10''" "to_string 20 = ''20''" "stoi ''10'' = Inr 10" "stoi ''20'' = Inr 20"
  "isNumber ''10''" "isNumber ''20''" "\<not> isNumber ''tty''" "stoi ''42]'' = Inr 42" "stoi ''77]x'' = Inr 77"
  by code_simp+

lemma sample_get:
  "\<exists>s'. ProcessIndex_get sample_env 42 sample_index = Inr (Some \<lparr>comm = ''ssh'', proc_pid = 10\<rparr>, s')"
  "\<exists>s'. ProcessIndex_get sample_env 7 sample_index = Inr (None, s')"
  by (simp_all add: ProcessIndex_get_def sample_index_def ProcessIndex_search_def searchCache_def
      LRUArray_iterator_def LRUArray_contains_def sample_env_def sample_strings processPidDir_def pid_string_def
      fd_path_def first_line_def lines_of_def)

text \<open>
  C11. A lookup of an inode that is neither known nor missed finds its owner exactly when there is one:
  the process it returns has the inode among its socket descriptors, is then known, and is the
  first of the cache; when it returns nothing, no process of the cache that is still alive and no
  process directory of \<open>/proc\<close> has the inode, and the inode is remembered as missed.
\<close>

theorem ProcessIndex_get_exact:
  assumes "pi_ok s" "pi_mCouldNotFind s i = None" "mProcessMap s i = None"
    and "ProcessIndex_get env i s = Inr (r, s')"
  shows "case r of
      Some q \<Rightarrow> serves env i (proc_pid q) = Some q \<and> mProcessMap s' i = Some q \<and>
        pi_mCouldNotFind s' = pi_mCouldNotFind s \<and>
        (mSize (mLRUCache s) = 0 \<or> hd (LRUArray_iterator (mLRUCache s')) = proc_pid q)
    | None \<Rightarrow> pi_mCouldNotFind s' = (pi_mCouldNotFind s)(i \<mapsto> True) \<and>
        (\<exists>entries. env_procdir env = Some entries \<and>
          [p \<leftarrow> alive env (LRUArray_iterator (mLRUCache s)). serves env i p \<noteq> None] = [] \<and>
          {p \<in> numeric_pids entries. serves env i p \<noteq> None} = {})"
  using assms(4,1)
proof (cases rule: ProcessIndex_get_cases)
  case (found q t)
  have "mSize (mLRUCache s) = 0 \<or> hd (LRUArray_iterator (mLRUCache s')) = proc_pid q"
    using lru.hd_update [OF found(6), of "proc_pid q"] found(5,7) by (auto simp: unat_gt_0)
  with found search_result_Some [OF found(3)] show ?thesis by simp
next
  case (not_found t)
  then show ?thesis
    using search_result_None [OF not_found(3)] by (auto simp: LRUArray_iterator_def filter_empty_conv)
qed (use assms(2,3) in auto)

theorem ProcessIndex_get_exact_witness:
  "serves sample_env 42 10 = Some \<lparr>comm = ''ssh'', proc_pid = 10\<rparr> \<and>
   {p \<in> numeric_pids [(''self'', False), (''10'', True), (''tty'', True), (''20'', True)].
      serves sample_env 7 p \<noteq> None} = {}"
proof -
  obtain s' t' where g: "ProcessIndex_get sample_env 42 sample_index = Inr (Some \<lparr>comm = ''ssh'', proc_pid = 10\<rparr>, s')"
    "ProcessIndex_get sample_env 7 sample_index = Inr (None, t')"
    using sample_get by blast
  have "env_procdir sample_env = Some [(''self'', False), (''10'', True), (''tty'', True), (''20'', True)]"
    by (simp add: sample_env_def)
  with ProcessIndex_get_exact [OF sample_index_ok g(1)] ProcessIndex_get_exact [OF sample_index_ok g(2)]
  show ?thesis by auto
qed

text \<open>
  C27. The order of a search: the processes of the cache that still have a directory come first, the
  most recently used one first; only when none of them has the inode is \<open>/proc\<close> read, and its
  remaining process directories are looked at by descending pid, each once. The search returns
  the first process in this order that has the inode.
\<close>

theorem ProcessIndex_search_order:
  assumes "pi_ok s" "ProcessIndex_search env i s = Inr (r, s')"
  shows "search_result env i (LRUArray_iterator (mLRUCache s)) r"
  using ProcessIndex_search_Inr [OF assms(2)] assms(1) by (simp add: pi_ok_def LRUArray_iterator_def)

theorem ProcessIndex_search_order_witness:
  "search_result sample_env 77 [] (Some \<lparr>comm = ''curl'', proc_pid = 20\<rparr>)"
proof -
  have "\<exists>s'. ProcessIndex_search sample_env 77 sample_index = Inr (Some \<lparr>comm = ''curl'', proc_pid = 20\<rparr>, s')"
    by (simp add: sample_index_def ProcessIndex_search_def searchCache_def
      LRUArray_iterator_def LRUArray_contains_def sample_env_def sample_strings processPidDir_def pid_string_def
      fd_path_def first_line_def lines_of_def)
  then show ?thesis
    using ProcessIndex_search_order [OF sample_index_ok(1)]
    by (fastforce simp: sample_index_def LRUArray_iterator_def)
qed

text \<open>A sequence of lookups that all return and of clearings of the list of missed inodes (\<open>None\<close>).\<close>

fun ProcessIndex_uses :: "(proc_env \<times> inode) option list \<Rightarrow> ProcessIndex \<Rightarrow> abort + ProcessIndex" where
  "ProcessIndex_uses [] s = Inr s"
| "ProcessIndex_uses (None # rest) s = ProcessIndex_uses rest (ProcessIndex_forget s)"
| "ProcessIndex_uses (Some (env, i) # rest) s =
     (case ProcessIndex_get env i s of Inl a \<Rightarrow> Inl a | Inr (_, s') \<Rightarrow> ProcessIndex_uses rest s')"

lemma uses_process: "ProcessIndex_uses es s = Inr t \<Longrightarrow> processes.uses es s = Some t"
proof (induction es s rule: ProcessIndex_uses.induct)
  case (3 env i rest s)
  then obtain r s1 where g: "ProcessIndex_get env i s = Inr (r, s1)" "ProcessIndex_uses rest s1 = Inr t"
    by (auto split: sum.splits)
  then have "process_lookup env i s = Some (r, s1)" by (simp add: process_lookup_iff)
  with "3.IH" [OF g(1) refl g(2)] show ?case by simp
qed simp_all

text \<open>
  C28. What a lookup of an inode gave is remembered, whatever is looked up later and however \<open>/proc\<close>
  changes. After a miss the inode is answered with nothing until the list of missed inodes is cleared.
  After a hit it is always answered with a process, also across clearings, and with the same one
  unless a lookup in between met a \<open>/proc\<close> where the inode is among the descriptors of that other
  process. None of these answers reads \<open>/proc\<close> or changes the index.
\<close>

theorem ProcessIndex_remembers:
  assumes "pi_ok s" "ProcessIndex_get env i s = Inr (r, s1)" "ProcessIndex_uses between s1 = Inr s2"
  shows "(r = None \<and> None \<notin> set between \<longrightarrow> ProcessIndex_get env' i s2 = Inr (None, s2)) \<and>
    (\<forall>q. r = Some q \<longrightarrow> (\<exists>q'. ProcessIndex_get env' i s2 = Inr (Some q', s2) \<and>
      (q' = q \<or> (\<exists>e j. Some (e, j) \<in> set between \<and> q' \<in> process_offers e i))))"
proof (intro conjI impI allI)
  assume "r = None \<and> None \<notin> set between"
  then show "ProcessIndex_get env' i s2 = Inr (None, s2)"
    using processes.miss_sticky [OF assms(1), of env i s1 between s2 i env'] assms(2) uses_process [OF assms(3)]
    by (simp add: process_lookup_iff)
next
  fix q
  assume "r = Some q"
  then have "process_lookup env i s = Some (Some q, s1)" using assms(2) by (simp add: process_lookup_iff)
  from processes.hit_sticky [OF assms(1) this uses_process [OF assms(3)] refl, of env']
  show "\<exists>q'. ProcessIndex_get env' i s2 = Inr (Some q', s2) \<and>
      (q' = q \<or> (\<exists>e j. Some (e, j) \<in> set between \<and> q' \<in> process_offers e i))"
    by (simp add: process_lookup_iff)
qed

text \<open>
  The inode 42 of ssh is found; then the inode 7 is missed, the list of missed inodes is cleared, and 7 is
  missed again where the processes are gone: 42 is still ssh's, and 7 remains missed.
\<close>

theorem ProcessIndex_remembers_witness:
  "\<exists>s1 s2. ProcessIndex_get sample_env 42 sample_index = Inr (Some \<lparr>comm = ''ssh'', proc_pid = 10\<rparr>, s1) \<and>
     ProcessIndex_uses [None, Some (sample_env\<lparr>env_fddir := \<lambda>_. None\<rparr>, 7)] s1 = Inr s2 \<and>
     ProcessIndex_get sample_env 42 s2 = Inr (Some \<lparr>comm = ''ssh'', proc_pid = 10\<rparr>, s2) \<and>
     ProcessIndex_get sample_env 7 s2 = Inr (None, s2)"
proof -
  let ?gone = "sample_env\<lparr>env_fddir := \<lambda>_. None\<rparr>"
  obtain s1 where g: "ProcessIndex_get sample_env 42 sample_index = Inr (Some \<lparr>comm = ''ssh'', proc_pid = 10\<rparr>, s1)"
    and s1_eq: "s1 = \<lparr>mProcessMap = [77 \<mapsto> \<lparr>comm = ''curl'', proc_pid = 20\<rparr>, 42 \<mapsto> \<lparr>comm = ''ssh'', proc_pid = 10\<rparr>],
      mLRUCache = \<lparr>mDeque = [10], mSize = 5\<rparr>, pi_mCouldNotFind = Map.empty\<rparr>"
    by (simp add: ProcessIndex_get_def sample_index_def ProcessIndex_search_def searchCache_def LRUArray_new_def LRUArray_update_def
      LRUArray_iterator_def LRUArray_contains_def sample_env_def sample_strings processPidDir_def pid_string_def
      fd_path_def first_line_def lines_of_def)
  have none: "process_offers ?gone 42 = {}"
    by (auto simp: process_offers_def scanned_def split: option.splits)
  have s1: "pi_ok s1" "pi_ok (ProcessIndex_forget s1)"
    using g processes.ok_lookup [OF sample_index_ok(1)] processes.ok_forget by (simp_all add: process_lookup_iff)
  have "\<exists>s2. ProcessIndex_get ?gone 7 (ProcessIndex_forget s1) = Inr (None, s2)"
    by (simp add: s1_eq ProcessIndex_forget_def ProcessIndex_get_def ProcessIndex_search_def searchCache_def
      LRUArray_iterator_def LRUArray_contains_def sample_env_def sample_strings processPidDir_def pid_string_def fd_path_def)
  then obtain s2 where m: "ProcessIndex_get ?gone 7 (ProcessIndex_forget s1) = Inr (None, s2)" by blast
  then have run: "ProcessIndex_uses [None, Some (?gone, 7)] s1 = Inr s2" by simp
  have "ProcessIndex_get sample_env 42 s2 = Inr (Some \<lparr>comm = ''ssh'', proc_pid = 10\<rparr>, s2)"
    using ProcessIndex_remembers [OF sample_index_ok(1) g run, of sample_env] none by auto
  moreover have "ProcessIndex_get sample_env 7 s2 = Inr (None, s2)"
    using ProcessIndex_remembers [OF s1(2) m, of "[]" s2 sample_env] by simp
  ultimately show ?thesis using g run by blast
qed

text \<open>What the link of a socket contributes, with whatever the buffer had behind the bracket.\<close>

lemma entry_inode_socket:
  assumes "env_readlink env (fdPath @ ''/'' @ name) = Some (''socket:['' @ show_nat n @ '']'' @ junk)"
  shows "entry_inode env fdPath (name, True) =
    Some (if n < 2 ^ 31 then Inr (word_of_nat n) else Inl (Uncaught OutOfRange))"
proof -
  have "stoi (show_nat n @ '']'' @ junk) = (if n < 2 ^ 31 then Inr (word_of_nat n) else Inl OutOfRange)"
    using stoi_digits [OF show_nat_nonempty set_show_nat, of "'']'' @ junk" n] by (simp add: isdigit_def)
  then show ?thesis using assms by (auto simp: entry_inode_def scast_nat_32_64)
qed

lemma fd_loop_uncaught: "fd_loop env fdPath process target entries found m = Inl a \<Longrightarrow> \<exists>x. a = Uncaught x"
proof (induction entries arbitrary: found m)
  case (Cons e entries)
  have "entry_inode env fdPath e = Some (Inl b) \<Longrightarrow> \<exists>x. b = Uncaught x" for b
    by (auto simp: entry_inode_def split: if_splits option.splits sum.splits)
  then show ?case
    using Cons unfolding fd_loop_Cons by (auto split: option.splits sum.splits)
qed simp

text \<open>
  C29. The descriptor scan reads socket inodes up to \<open>2 ^ 31 - 1\<close> only, since it converts them with
  \<open>std::stoi\<close>: a link \<open>socket:[n]\<close> with a larger \<open>n\<close> makes the scan of the process throw an exception
  nothing catches; with a smaller \<open>n\<close>, whatever stands behind the bracket in the buffer that
  \<open>readlink\<close> does not terminate, a scan that returns has entered the inode with this process.
\<close>

theorem processPidDir_socket_link:
  assumes "env_file env (''/proc/'' @ pidStr @ ''/comm'') = Some content"
    and "env_fddir env fdPath = Some entries" "(name, True) \<in> set entries"
    and "env_readlink env (fdPath @ ''/'' @ name) = Some (''socket:['' @ show_nat n @ '']'' @ junk)"
  shows "(2 ^ 31 \<le> n \<longrightarrow> (\<exists>x. processPidDir env fdPath pidStr p target m = Inl (Uncaught x))) \<and>
    (n < 2 ^ 31 \<longrightarrow> (\<forall>f m'. processPidDir env fdPath pidStr p target m = Inr (f, m') \<longrightarrow>
       m' (word_of_nat n) = Some \<lparr>comm = first_line content, proc_pid = p\<rparr>))"
proof (intro conjI impI allI)
  have scan: "processPidDir env fdPath pidStr p target m =
      fd_loop env fdPath \<lparr>comm = first_line content, proc_pid = p\<rparr> target entries None m"
    using assms(1,2) by (simp add: processPidDir_def)
  assume "2 ^ 31 \<le> n"
  then have "entry_inode env fdPath (name, True) = Some (Inl (Uncaught OutOfRange))"
    using entry_inode_socket [OF assms(4)] by simp
  then have "\<exists>e\<in>set entries. \<exists>a. entry_inode env fdPath e = Some (Inl a)"
    using assms(3) by blast
  then obtain a where
    l: "fd_loop env fdPath \<lparr>comm = first_line content, proc_pid = p\<rparr> target entries None m = Inl a"
    unfolding fd_loop_Inl [symmetric, of _ _ _ "\<lparr>comm = first_line content, proc_pid = p\<rparr>" target None m]
    by blast
  then obtain x where "a = Uncaught x" using fd_loop_uncaught by blast
  with scan l show "\<exists>x. processPidDir env fdPath pidStr p target m = Inl (Uncaught x)" by simp
next
  fix f m'
  assume n: "n < 2 ^ 31" and r: "processPidDir env fdPath pidStr p target m = Inr (f, m')"
  have "entry_inode env fdPath (name, True) = Some (Inr (word_of_nat n))"
    using entry_inode_socket [OF assms(4)] n by simp
  then have own: "word_of_nat n \<in> owned env fdPath entries"
    using assms(3) unfolding owned_def by blast
  have "scanned env fdPath pidStr p = Some (\<lparr>comm = first_line content, proc_pid = p\<rparr>, owned env fdPath entries)"
    using assms(1,2) by (simp add: scanned_def)
  with processPidDir_Inr [OF r]
  have "m' = (\<lambda>i. if i \<in> owned env fdPath entries then Some \<lparr>comm = first_line content, proc_pid = p\<rparr> else m i)"
    by simp
  with own show "m' (word_of_nat n) = Some \<lparr>comm = first_line content, proc_pid = p\<rparr>" by (simp only: if_True)
qed

theorem processPidDir_socket_link_witness:
  "(\<exists>x. processPidDir (sample_env\<lparr>env_readlink := \<lambda>_. Some (''socket:['' @ show_nat 3000000000 @ '']'')\<rparr>)
      ''/proc/20/fd'' ''20'' 20 0 Map.empty = Inl (Uncaught x)) \<and>
   (\<exists>f m'. processPidDir sample_env ''/proc/20/fd'' ''20'' 20 0 Map.empty = Inr (f, m') \<and>
      m' 77 = Some \<lparr>comm = first_line (''curl'' @ [CHR 0x0A]), proc_pid = 20\<rparr>)"
proof -
  have s: "show_nat 77 = ''77''" by code_simp
  have env: "env_file e (''/proc/'' @ ''20'' @ ''/comm'') = Some (''curl'' @ [CHR 0x0A])"
    "env_fddir e ''/proc/20/fd'' = Some [(''5'', True)]" "(''5'', True) \<in> set [(''5'', True)]"
    if "e = sample_env \<or> e = sample_env\<lparr>env_readlink := \<lambda>_. Some (''socket:['' @ show_nat 3000000000 @ '']'')\<rparr>" for e
    using that by (auto simp: sample_env_def)
  have l1: "env_readlink (sample_env\<lparr>env_readlink := \<lambda>_. Some (''socket:['' @ show_nat 3000000000 @ '']'')\<rparr>)
      (''/proc/20/fd'' @ ''/'' @ ''5'') = Some (''socket:['' @ show_nat 3000000000 @ '']'' @ [])"
    and l2: "env_readlink sample_env (''/proc/20/fd'' @ ''/'' @ ''5'') =
      Some (''socket:['' @ show_nat 77 @ '']'' @ ''x'')"
    by (simp_all add: s sample_env_def)
  obtain f m' where "processPidDir sample_env ''/proc/20/fd'' ''20'' 20 0 Map.empty = Inr (f, m')"
    by (simp add: processPidDir_def sample_env_def sample_strings)
  then show ?thesis
    using processPidDir_socket_link [OF env [OF disjI2 [OF refl]] l1, of 20 0 Map.empty]
      processPidDir_socket_link [OF env [OF disjI1 [OF refl]] l2, of 20 0 Map.empty]
    by simp
qed

section \<open>How a lookup can end the program\<close>

text \<open>Besides an exception of \<open>std::stoi\<close>, only the directory \<open>/proc\<close> being unreadable does.\<close>

definition proc_abort :: "proc_env \<Rightarrow> abort \<Rightarrow> bool" where
  "proc_abort env a \<longleftrightarrow> (case a of Uncaught _ \<Rightarrow> True | Exited n \<Rightarrow> n = 1 \<and> env_procdir env = None | _ \<Rightarrow> False)"

lemma processPidDir_abort: "processPidDir env fdPath pidStr p target m = Inl a \<Longrightarrow> proc_abort env a"
  by (auto simp: processPidDir_def proc_abort_def dest!: fd_loop_uncaught split: option.splits)

lemma cache_loop_abort: "cache_loop env target pids expired m = Inl a \<Longrightarrow> proc_abort env a"
  by (induction env target pids expired m rule: cache_loop.induct)
    (auto dest: processPidDir_abort split: if_splits sum.splits option.splits)

lemma search_loop_abort: "search_loop env target pids m = Inl a \<Longrightarrow> proc_abort env a"
  by (induction env target pids m rule: search_loop.induct)
    (auto dest: processPidDir_abort split: sum.splits option.splits)

lemma collect_pids_abort: "collect_pids entries cache acc = Inl a \<Longrightarrow> proc_abort env a"
  by (induction entries cache acc rule: collect_pids.induct) (auto simp: proc_abort_def split: if_splits sum.splits)

lemma ProcessIndex_get_abort: "ProcessIndex_get env i s = Inl a \<Longrightarrow> proc_abort env a"
proof -
  have exit: "proc_abort env (Exited 1)" if "env_procdir env = None" using that by (simp add: proc_abort_def)
  show "ProcessIndex_get env i s = Inl a \<Longrightarrow> proc_abort env a"
    by (auto simp: ProcessIndex_get_def ProcessIndex_search_def searchCache_def
        intro: exit cache_loop_abort search_loop_abort collect_pids_abort split: if_splits option.splits sum.splits)
qed

end
