(* ===== verification/Traffic_Storage.thy ===== *)
theory Traffic_Storage
  imports Packet Process_Index
begin

text \<open>
  \<open>src/src/traffic/TrafficStorage.cpp\<close>: the traffic of each application since the last deposit, the
  deposit loop that hands it to the database and clears it, and the hook through which a live API
  stream receives the deposited traffic. Three threads use it: the sniffer (\<open>add\<close>), the deposit
  loop and the API (\<open>awaitSnapshot\<close>, \<open>getLiveSnapshot\<close>). What a thread does under the mutex is one
  operation here; \<open>add\<close> fetches its line before it locks, hence it is two.
\<close>

section \<open>Traffic lines\<close>

record TrafficLine =
  bytesRx :: u64
  bytesTx :: u64
  pktRxCount :: i32
  pktTxCount :: i32

type_synonym TrafficMap = "string \<rightharpoonup> TrafficLine"

text \<open>Lines add up componentwise; the sum of no lines is the line a new application starts with.\<close>

instantiation unit :: comm_monoid_add
begin

definition zero_unit :: unit where "zero_unit = ()"

definition plus_unit :: "unit \<Rightarrow> unit \<Rightarrow> unit" where "plus_unit x y = ()"

instance by standard simp_all

end

instantiation TrafficLine_ext :: (comm_monoid_add) comm_monoid_add
begin

definition zero_TrafficLine_ext :: "'a TrafficLine_ext" where
  "zero_TrafficLine_ext = TrafficLine_ext 0 0 0 0 0"

definition plus_TrafficLine_ext :: "'a TrafficLine_ext \<Rightarrow> 'a TrafficLine_ext \<Rightarrow> 'a TrafficLine_ext" where
  "plus_TrafficLine_ext l k =
     TrafficLine_ext (bytesRx l + bytesRx k) (bytesTx l + bytesTx k)
       (pktRxCount l + pktRxCount k) (pktTxCount l + pktTxCount k)
       (TrafficLine.more l + TrafficLine.more k)"

instance
proof
  fix a b c :: "'a TrafficLine_ext"
  show "a + b + c = a + (b + c)"
    by (simp add: plus_TrafficLine_ext_def add.assoc)
  show "a + b = b + a"
    by (simp add: plus_TrafficLine_ext_def add.commute)
  show "0 + a = a"
    by (cases a) (simp add: plus_TrafficLine_ext_def zero_TrafficLine_ext_def)
qed

end

lemma line_plus [simp]:
  "bytesRx (l + k) = bytesRx l + bytesRx k" "bytesTx (l + k) = bytesTx l + bytesTx k"
  "pktRxCount (l + k) = pktRxCount l + pktRxCount k" "pktTxCount (l + k) = pktTxCount l + pktTxCount k"
  by (simp_all add: plus_TrafficLine_ext_def)

lemma line_zero [simp]:
  "bytesRx 0 = 0" "bytesTx 0 = 0" "pktRxCount 0 = 0" "pktTxCount 0 = 0"
  by (simp_all add: zero_TrafficLine_ext_def)

text \<open>The members' initialisers, and \<open>TrafficLine::empty\<close>.\<close>

definition TrafficLine_init :: TrafficLine where
  "TrafficLine_init = \<lparr>bytesRx = 0, bytesTx = 0, pktRxCount = 0, pktTxCount = 0\<rparr>"

definition TrafficLine_empty :: "TrafficLine \<Rightarrow> bool" where
  "TrafficLine_empty l \<longleftrightarrow> bytesRx l = 0 \<and> bytesTx l = 0 \<and> pktRxCount l = 0 \<and> pktTxCount l = 0"

lemma TrafficLine_init_zero: "TrafficLine_init = 0"
  by (simp add: TrafficLine_init_def zero_TrafficLine_ext_def zero_unit_def)

lemma TrafficLine_empty_iff: "TrafficLine_empty l \<longleftrightarrow> l = TrafficLine_init"
  by (auto simp: TrafficLine_empty_def TrafficLine_init_def)

section \<open>State\<close>

text \<open>The pointers to the API's variables have no initialiser.\<close>

datatype 'a pointer = Indeterminate | Nullptr | Ref 'a

text \<open>The local variables of a live stream, which the storage writes through the pointers.\<close>

record api_frame =
  await_locked :: bool
  trafficMap :: TrafficMap
  frame_interval :: "i32 option"

definition new_frame :: api_frame where
  "new_frame = \<lparr>await_locked = False, trafficMap = Map.empty, frame_interval = None\<rparr>"

type_synonym api_memory = "nat \<rightharpoonup> api_frame"

record TrafficStorage =
  mApplicationTraffic :: TrafficMap
  mInterval :: i32
  mAPIWaiting :: bool
  apiMutex :: "nat pointer"
  apiTrafficMap :: "nat pointer"
  apiInterval :: "nat pointer"

definition TrafficStorage_new :: "i32 \<Rightarrow> TrafficStorage" where
  "TrafficStorage_new interval =
     \<lparr>mApplicationTraffic = Map.empty, mInterval = interval, mAPIWaiting = False,
      apiMutex = Indeterminate, apiTrafficMap = Indeterminate, apiInterval = Indeterminate\<rparr>"

section \<open>Operations\<close>

text \<open>
  \<open>TrafficStorage::add\<close>. The first part, without the lock, is \<open>operator[]\<close>, which creates the line
  of a new application and returns a reference to it. The second part updates the line through the
  reference, which is dangling when the line has gone in between. \<open>int\<close> becomes \<open>uint64_t\<close> by sign
  extension, the counters wrap around.
\<close>

definition TrafficStorage_line :: "Process \<Rightarrow> TrafficStorage \<Rightarrow> TrafficStorage" where
  "TrafficStorage_line p s =
     (if mApplicationTraffic s (comm p) = None
      then s\<lparr>mApplicationTraffic := (mApplicationTraffic s)(comm p \<mapsto> TrafficLine_init)\<rparr> else s)"

definition TrafficStorage_account :: "Process \<Rightarrow> Packet \<Rightarrow> TrafficStorage \<Rightarrow> abort + TrafficStorage" where
  "TrafficStorage_account p pkt s =
     (case mApplicationTraffic s (comm p) of
        None \<Rightarrow> Inl Undefined
      | Some line \<Rightarrow>
          let line' = (if direction pkt = Incoming
                       then line\<lparr>bytesRx := bytesRx line + scast (pkt_len pkt), pktRxCount := pktRxCount line + 1\<rparr>
                       else line\<lparr>bytesTx := bytesTx line + scast (pkt_len pkt), pktTxCount := pktTxCount line + 1\<rparr>)
          in Inr (s\<lparr>mApplicationTraffic := (mApplicationTraffic s)(comm p \<mapsto> line')\<rparr>))"

text \<open>Both parts, with no other thread in between.\<close>

definition TrafficStorage_add :: "Process \<Rightarrow> Packet \<Rightarrow> TrafficStorage \<Rightarrow> abort + TrafficStorage" where
  "TrafficStorage_add p pkt s = TrafficStorage_account p pkt (TrafficStorage_line p s)"

definition getLiveSnapshot :: "TrafficStorage \<Rightarrow> TrafficMap \<times> i32" where
  "getLiveSnapshot s = (mApplicationTraffic s, mInterval s)"

text \<open>
  \<open>awaitSnapshot\<close>, on the addresses of the caller's variables: refused while a stream is waiting.
  Otherwise the caller's mutex is locked by the caller's thread, which it must not hold already.
\<close>

definition awaitSnapshot ::
  "nat \<Rightarrow> nat \<Rightarrow> nat \<Rightarrow> TrafficStorage \<Rightarrow> api_memory \<Rightarrow> abort + (bool \<times> TrafficStorage \<times> api_memory)" where
  "awaitSnapshot mutex traffic interval s mem =
     (if mAPIWaiting s then Inr (False, s, mem)
      else
        let s' = s\<lparr>mAPIWaiting := True, apiMutex := Ref mutex, apiTrafficMap := Ref traffic, apiInterval := Ref interval\<rparr>
        in case mem mutex of
             None \<Rightarrow> Inl Undefined
           | Some f \<Rightarrow> if await_locked f then Inl Undefined
                       else Inr (True, s', mem(mutex \<mapsto> f\<lparr>await_locked := True\<rparr>)))"

definition write_frame :: "nat \<Rightarrow> (api_frame \<Rightarrow> api_frame) \<Rightarrow> api_memory \<Rightarrow> abort + api_memory" where
  "write_frame a g mem = (case mem a of None \<Rightarrow> Inl Undefined | Some f \<Rightarrow> Inr (mem(a \<mapsto> g f)))"

text \<open>Handing the traffic to the waiting stream; a pointer is compared with null before it is used.\<close>

definition deliver :: "TrafficStorage \<Rightarrow> api_memory \<Rightarrow> abort + (TrafficStorage \<times> api_memory)" where
  "deliver s mem =
     (if \<not> mAPIWaiting s then Inr (s, mem)
      else case (apiMutex s, apiTrafficMap s, apiInterval s) of
        (Nullptr, _, _) \<Rightarrow> Inr (s\<lparr>mAPIWaiting := False\<rparr>, mem)
      | (Ref a, Nullptr, _) \<Rightarrow> Inr (s\<lparr>mAPIWaiting := False\<rparr>, mem)
      | (Ref a, Ref t, Nullptr) \<Rightarrow> Inr (s\<lparr>mAPIWaiting := False\<rparr>, mem)
      | (Ref a, Ref t, Ref i) \<Rightarrow>
          (case write_frame t (trafficMap_update (\<lambda>_. mApplicationTraffic s)) mem of
             Inl e \<Rightarrow> Inl e
           | Inr mem \<Rightarrow>
               (case write_frame i (frame_interval_update (\<lambda>_. Some (mInterval s))) mem of
                  Inl e \<Rightarrow> Inl e
                | Inr mem \<Rightarrow>
                    (case write_frame a (await_locked_update (\<lambda>_. False)) mem of
                       Inl e \<Rightarrow> Inl e
                     | Inr mem \<Rightarrow> Inr (s\<lparr>mAPIWaiting := False\<rparr>, mem))))
      | _ \<Rightarrow> Inl Undefined)"

text \<open>One turn of the deposit loop; \<open>insertDB\<close> is the database controller's insertion.\<close>

definition deposit ::
  "(TrafficMap \<Rightarrow> 'db \<Rightarrow> 'db) \<Rightarrow> TrafficStorage \<Rightarrow> api_memory \<Rightarrow> 'db \<Rightarrow> abort + (TrafficStorage \<times> api_memory \<times> 'db)" where
  "deposit insertDB s mem db =
     (let db = insertDB (mApplicationTraffic s) db
      in case deliver s mem of
           Inl e \<Rightarrow> Inl e
         | Inr (s, mem) \<Rightarrow> Inr (s\<lparr>mApplicationTraffic := Map.empty\<rparr>, mem, db))"

text \<open>
  A hash map is iterated in some order: \<open>iterate\<close> lists the entries of a map, each once. Nothing else is
  assumed about it.
\<close>

definition iterates :: "(TrafficMap \<Rightarrow> (string \<times> TrafficLine) list) \<Rightarrow> bool" where
  "iterates iterate \<longleftrightarrow> (\<forall>m. finite (dom m) \<longrightarrow> distinct (map fst (iterate m)) \<and> map_of (iterate m) = m)"

section \<open>What an operation contributes\<close>

definition line_of :: "TrafficMap \<Rightarrow> string \<Rightarrow> TrafficLine" where
  "line_of m name = (case m name of None \<Rightarrow> 0 | Some l \<Rightarrow> l)"

definition contribution :: "Packet \<Rightarrow> TrafficLine" where
  "contribution pkt =
     (if direction pkt = Incoming
      then \<lparr>bytesRx = scast (pkt_len pkt), bytesTx = 0, pktRxCount = 1, pktTxCount = 0\<rparr>
      else \<lparr>bytesRx = 0, bytesTx = scast (pkt_len pkt), pktRxCount = 0, pktTxCount = 1\<rparr>)"

lemma line_of_empty [simp]: "line_of Map.empty name = 0"
  by (simp add: line_of_def)

lemma line_of_line [simp]: "line_of (mApplicationTraffic (TrafficStorage_line p s)) name = line_of (mApplicationTraffic s) name"
  by (simp add: TrafficStorage_line_def line_of_def TrafficLine_init_zero)

lemma line_frame [frame, simp]:
  "mInterval (TrafficStorage_line p s) = mInterval s" "mAPIWaiting (TrafficStorage_line p s) = mAPIWaiting s"
  "apiMutex (TrafficStorage_line p s) = apiMutex s" "apiTrafficMap (TrafficStorage_line p s) = apiTrafficMap s"
  "apiInterval (TrafficStorage_line p s) = apiInterval s"
  by (simp_all add: TrafficStorage_line_def)

lemma plus_contribution:
  "l + contribution pkt =
     (if direction pkt = Incoming
      then l\<lparr>bytesRx := bytesRx l + scast (pkt_len pkt), pktRxCount := pktRxCount l + 1\<rparr>
      else l\<lparr>bytesTx := bytesTx l + scast (pkt_len pkt), pktTxCount := pktTxCount l + 1\<rparr>)"
  by (cases l) (simp add: contribution_def plus_TrafficLine_ext_def)

lemma account_cases:
  "TrafficStorage_account p pkt s =
     (if comm p \<in> dom (mApplicationTraffic s)
      then Inr (s\<lparr>mApplicationTraffic := (mApplicationTraffic s)
                   (comm p \<mapsto> line_of (mApplicationTraffic s) (comm p) + contribution pkt)\<rparr>)
      else Inl Undefined)"
  by (cases "mApplicationTraffic s (comm p)") (auto simp: TrafficStorage_account_def line_of_def plus_contribution)

lemma account_InrE:
  assumes "TrafficStorage_account p pkt s = Inr s'"
  obtains "comm p \<in> dom (mApplicationTraffic s)" and
    "s' = s\<lparr>mApplicationTraffic := (mApplicationTraffic s)
            (comm p \<mapsto> line_of (mApplicationTraffic s) (comm p) + contribution pkt)\<rparr>"
  using assms by (auto simp: account_cases split: if_splits)

lemma add_eq:
  "TrafficStorage_add p pkt s =
     Inr (s\<lparr>mApplicationTraffic := (mApplicationTraffic s)
            (comm p \<mapsto> line_of (mApplicationTraffic s) (comm p) + contribution pkt)\<rparr>)"
  by (auto simp: TrafficStorage_add_def account_cases TrafficStorage_line_def line_of_def TrafficLine_init_zero)

lemma deliver_hook:
  assumes "mAPIWaiting s" "apiMutex s = Ref a" "apiTrafficMap s = Ref a" "apiInterval s = Ref a" "mem a = Some f"
  shows "deliver s mem = Inr (s\<lparr>mAPIWaiting := False\<rparr>,
    mem(a \<mapsto> \<lparr>await_locked = False, trafficMap = mApplicationTraffic s, frame_interval = Some (mInterval s)\<rparr>))"
  using assms by (cases f) (simp add: deliver_def write_frame_def)

lemma deliver_idle: "\<not> mAPIWaiting s \<Longrightarrow> deliver s mem = Inr (s, mem)"
  by (simp add: deliver_def)

end
