(* ===== verification/Live_Stream.thy ===== *)
theory Live_Stream
  imports Traffic_Storage
begin

text \<open>
  The threads around the traffic storage: the sniffer, the deposit loop and any number of live API
  streams (\<open>APIController::live\<close> and \<open>liveText\<close>, which differ in the text they send only; that a message
  may be impossible to print, which ends the process, is in \<open>Service\<close>). A step
  is what one thread does between two points where another can run. The frame of a stream holds
  the variables of one turn of its loop, and is named by the stream.
\<close>

section \<open>System state and steps\<close>

datatype stream_pc = Starting | Awaiting | Sending | Closed

datatype message = Update TrafficMap "i32 option" | is_Refused: Refused

record live_system =
  storage :: TrafficStorage
  memory :: api_memory
  streams :: "nat \<rightharpoonup> stream_pc"
  messages :: "(nat \<times> message) list"
  pending :: "(Process \<times> Packet) option"
  deposits :: "TrafficMap list"

definition live_init :: "i32 \<Rightarrow> live_system" where
  "live_init interval =
     \<lparr>storage = TrafficStorage_new interval, memory = Map.empty, streams = Map.empty,
      messages = [], pending = None, deposits = []\<rparr>"

text \<open>
  \<open>Fetch\<close> and \<open>Account\<close> are the two parts of \<open>add\<close>. A stream's turn is \<open>Subscribe\<close> (or \<open>Refuse\<close>),
  \<open>Wake\<close> when its mutex could be locked again, and \<open>Send\<close>, which ends the stream when the peer
  has gone.
\<close>

datatype event = Fetch Process Packet | Account Process Packet | Deposit
  | Connect nat | Subscribe nat | Refuse nat | Wake nat | Send nat bool

abbreviation log_deposit :: "TrafficMap \<Rightarrow> TrafficMap list \<Rightarrow> TrafficMap list" where
  "log_deposit m ms \<equiv> ms @ [m]"

inductive live_step :: "live_system \<Rightarrow> event \<Rightarrow> live_system \<Rightarrow> bool" where
  step_Fetch: "pending s = None \<Longrightarrow>
    live_step s (Fetch p pkt) (s\<lparr>storage := TrafficStorage_line p (storage s), pending := Some (p, pkt)\<rparr>)"
| step_Account: "pending s = Some (p, pkt) \<Longrightarrow> TrafficStorage_account p pkt (storage s) = Inr ts \<Longrightarrow>
    live_step s (Account p pkt) (s\<lparr>storage := ts, pending := None\<rparr>)"
| step_Deposit: "deposit log_deposit (storage s) (memory s) (deposits s) = Inr (ts, mem, ms) \<Longrightarrow>
    live_step s Deposit (s\<lparr>storage := ts, memory := mem, deposits := ms\<rparr>)"
| step_Connect: "streams s a = None \<Longrightarrow>
    live_step s (Connect a) (s\<lparr>streams := (streams s)(a \<mapsto> Starting)\<rparr>)"
| step_Subscribe: "streams s a = Some Starting \<Longrightarrow>
    awaitSnapshot a a a (storage s) ((memory s)(a \<mapsto> new_frame)) = Inr (True, ts, mem) \<Longrightarrow>
    live_step s (Subscribe a) (s\<lparr>storage := ts, memory := mem, streams := (streams s)(a \<mapsto> Awaiting)\<rparr>)"
| step_Refuse: "streams s a = Some Starting \<Longrightarrow>
    awaitSnapshot a a a (storage s) ((memory s)(a \<mapsto> new_frame)) = Inr (False, ts, mem) \<Longrightarrow>
    live_step s (Refuse a)
      (s\<lparr>storage := ts, memory := mem(a := None), streams := (streams s)(a \<mapsto> Closed),
         messages := messages s @ [(a, Refused)]\<rparr>)"
| step_Wake: "streams s a = Some Awaiting \<Longrightarrow> memory s a = Some f \<Longrightarrow> \<not> await_locked f \<Longrightarrow>
    live_step s (Wake a)
      (s\<lparr>memory := (memory s)(a \<mapsto> f\<lparr>await_locked := True\<rparr>), streams := (streams s)(a \<mapsto> Sending)\<rparr>)"
| step_Send: "streams s a = Some Sending \<Longrightarrow> memory s a = Some f \<Longrightarrow>
    live_step s (Send a ok)
      (s\<lparr>memory := (memory s)(a := None),
         streams := (streams s)(a \<mapsto> (if ok then Starting else Closed)),
         messages := (if ok then messages s @ [(a, Update (trafficMap f) (frame_interval f))] else messages s)\<rparr>)"

inductive_cases live_stepE: "live_step s e s'"

inductive_simps live_step_Fetch [simp]: "live_step s (Fetch p pkt) s'"
inductive_simps live_step_Account [simp]: "live_step s (Account p pkt) s'"
inductive_simps live_step_Deposit [simp]: "live_step s Deposit s'"

inductive live_run :: "live_system \<Rightarrow> event list \<Rightarrow> live_system \<Rightarrow> bool" where
  run_Nil: "live_run s [] s"
| run_snoc: "live_run s es t \<Longrightarrow> live_step t e u \<Longrightarrow> live_run s (es @ [e]) u"

section \<open>Conservation\<close>

fun accounted :: "event list \<Rightarrow> (string \<times> Packet) list" where
  "accounted [] = []"
| "accounted (Account p pkt # es) = (comm p, pkt) # accounted es"
| "accounted (_ # es) = accounted es"

lemma accounted_append [simp]: "accounted (es @ es') = accounted es @ accounted es'"
  by (induction es rule: accounted.induct) simp_all

text \<open>The line an application should have after a list of packets.\<close>

definition tally :: "(string \<times> Packet) list \<Rightarrow> string \<Rightarrow> TrafficLine" where
  "tally log name = sum_list (map (contribution \<circ> snd) [e \<leftarrow> log. fst e = name])"

lemma tally_simps [simp]:
  "tally [] name = 0"
  "tally (log @ log') name = tally log name + tally log' name"
  "tally ((n, pkt) # log) name = (if n = name then contribution pkt else 0) + tally log name"
  by (simp_all add: tally_def)

text \<open>What was deposited of an application, and what is still in memory.\<close>

definition recorded :: "live_system \<Rightarrow> string \<Rightarrow> TrafficLine" where
  "recorded s name =
     sum_list (map (\<lambda>m. line_of m name) (deposits s)) + line_of (mApplicationTraffic (storage s)) name"

lemma deliver_frame [frame]:
  "deliver s mem = Inr (s', mem') \<Longrightarrow> mApplicationTraffic s' = mApplicationTraffic s \<and> mInterval s' = mInterval s"
  by (auto simp: deliver_def split: if_splits pointer.splits sum.splits)

lemma await_frame [frame]:
  "awaitSnapshot a t i s mem = Inr (b, s', mem') \<Longrightarrow>
   mApplicationTraffic s' = mApplicationTraffic s \<and> mInterval s' = mInterval s"
  by (auto simp: awaitSnapshot_def Let_def split: if_splits option.splits)

lemma deposit_InrE:
  assumes "deposit log_deposit s mem ms = Inr (s', mem', ms')"
  obtains t where "deliver s mem = Inr (t, mem')" "s' = t\<lparr>mApplicationTraffic := Map.empty\<rparr>"
    "ms' = ms @ [mApplicationTraffic s]"
  using assms by (auto simp: deposit_def Let_def split: sum.splits)

lemma recorded_step:
  assumes "live_step s e s'"
  shows "recorded s' name = recorded s name + tally (accounted [e]) name"
  using assms
proof (cases rule: live_step.cases)
  case (step_Account p pkt ts)
  then show ?thesis
    by (auto simp: recorded_def line_of_def add.assoc elim!: account_InrE)
next
  case (step_Deposit ts mem ms)
  then show ?thesis
    by (auto simp: recorded_def elim!: deposit_InrE dest!: deliver_frame)
qed (auto simp: recorded_def dest!: await_frame)

lemma recorded_run:
  "live_run s es s' \<Longrightarrow> recorded s' name = recorded s name + tally (accounted es) name"
  by (induction rule: live_run.induct) (simp_all add: recorded_step add.assoc)

lemma recorded_init [simp]: "recorded (live_init interval) name = 0"
  by (simp add: recorded_def live_init_def TrafficStorage_new_def)

text \<open>
  C6. No packet is lost and none is counted twice: whatever the threads do and however their steps
  interleave, the traffic an application has in all the deposits so far and in memory together is
  that of the packets that were accounted to it.
\<close>

theorem traffic_conserved:
  assumes "live_run (live_init interval) es s"
  shows "sum_list (map (\<lambda>m. line_of m name) (deposits s)) + line_of (fst (getLiveSnapshot (storage s))) name =
    tally (accounted es) name"
  unfolding getLiveSnapshot_def fst_conv recorded_def [symmetric]
  using recorded_run [OF assms, of name] by simp

section \<open>Exact counters\<close>

lemma run_Nil_iff [simp]: "live_run s [] t \<longleftrightarrow> t = s"
  by (subst live_run.simps) auto

lemma run_snoc_iff: "live_run s (es @ [e]) u \<longleftrightarrow> (\<exists>t. live_run s es t \<and> live_step t e u)"
  by (subst live_run.simps) auto

lemma run_single: "live_run s [e] t \<longleftrightarrow> live_step s e t"
  using run_snoc_iff [of s "[]" e t] by simp

lemma run_append: "live_run s (es @ es') u \<longleftrightarrow> (\<exists>t. live_run s es t \<and> live_run t es' u)"
proof (induction es' arbitrary: u rule: rev_induct)
  case (snoc e es')
  then show ?case
    unfolding append_assoc [symmetric] run_snoc_iff by blast
qed simp

lemma memory_step:
  assumes "live_step s e s'" "Deposit \<noteq> e"
  shows "line_of (mApplicationTraffic (storage s')) name =
    line_of (mApplicationTraffic (storage s)) name + tally (accounted [e]) name"
  using assms
proof (cases rule: live_step.cases)
  case (step_Account p pkt ts)
  then show ?thesis
    by (auto simp: line_of_def elim!: account_InrE)
qed (auto dest!: await_frame)

lemma memory_run:
  "live_run s es s' \<Longrightarrow> Deposit \<notin> set es \<Longrightarrow>
   line_of (mApplicationTraffic (storage s')) name =
     line_of (mApplicationTraffic (storage s)) name + tally (accounted es) name"
  by (induction rule: live_run.induct) (simp_all add: memory_step add.assoc)

definition lengths :: "Direction set \<Rightarrow> string \<Rightarrow> (string \<times> Packet) list \<Rightarrow> int list" where
  "lengths dirs name log = map (sint \<circ> pkt_len \<circ> snd) [e \<leftarrow> log. fst e = name \<and> direction (snd e) \<in> dirs]"

lemma lengths_simps [simp]:
  "lengths dirs name [] = []"
  "lengths dirs name (e # log) =
     (if fst e = name \<and> direction (snd e) \<in> dirs then [sint (pkt_len (snd e))] else []) @ lengths dirs name log"
  by (simp_all add: lengths_def)

lemma contribution_words:
  "bytesRx (contribution pkt) = (if direction pkt = Incoming then scast (pkt_len pkt) else 0)"
  "bytesTx (contribution pkt) = (if direction pkt = Incoming then 0 else scast (pkt_len pkt))"
  "pktRxCount (contribution pkt) = (if direction pkt = Incoming then 1 else 0)"
  "pktTxCount (contribution pkt) = (if direction pkt = Incoming then 0 else 1)"
  by (simp_all add: contribution_def)

lemma tally_Cons: "tally (e # log) name = (if fst e = name then contribution (snd e) else 0) + tally log name"
  by (cases e) simp

lemma tally_words:
  "bytesRx (tally log name) = word_of_int (sum_list (lengths {Incoming} name log))"
  "bytesTx (tally log name) = word_of_int (sum_list (lengths (- {Incoming}) name log))"
  "pktRxCount (tally log name) = word_of_nat (length (lengths {Incoming} name log))"
  "pktTxCount (tally log name) = word_of_nat (length (lengths (- {Incoming}) name log))"
  by (induction log) (simp_all add: tally_Cons contribution_words del: tally_simps(3))

lemma lengths_bounds:
  assumes "\<forall>e\<in>set log. 0 \<le> sint (pkt_len (snd e))"
  shows "0 \<le> sum_list (lengths dirs name log) \<and> sum_list (lengths dirs name log) \<le> 2 ^ 31 * int (length log) \<and>
    length (lengths dirs name log) \<le> length log"
  using assms
proof (induction log)
  case (Cons e log)
  have "sint (pkt_len (snd e)) < 2 ^ (LENGTH(32) - 1)" by (rule sint_lt)
  with Cons show ?case by auto
qed simp

lemma tally_exact:
  assumes "length log < 2 ^ 31" "\<forall>e\<in>set log. 0 \<le> sint (pkt_len (snd e))"
  shows "uint (bytesRx (tally log name)) = sum_list (lengths {Incoming} name log)"
    and "uint (bytesTx (tally log name)) = sum_list (lengths (- {Incoming}) name log)"
    and "sint (pktRxCount (tally log name)) = int (length (lengths {Incoming} name log))"
    and "sint (pktTxCount (tally log name)) = int (length (lengths (- {Incoming}) name log))"
proof -
  have b: "0 \<le> sum_list (lengths dirs name log)" "sum_list (lengths dirs name log) < 2 ^ 64"
    "length (lengths dirs name log) < 2 ^ 31" for dirs
    using lengths_bounds [OF assms(2), of dirs name] assms(1) by simp_all
  have u: "uint (word_of_int (sum_list (lengths dirs name log)) :: u64) = sum_list (lengths dirs name log)" for dirs
    using b(1,2) [of dirs] by (simp add: uint_word_of_int)
  have n: "sint (word_of_nat (length (lengths dirs name log)) :: i32) = int (length (lengths dirs name log))" for dirs
    using b(3) [of dirs] by (simp add: signed_of_nat signed_take_bit_int_eq_self)
  show "uint (bytesRx (tally log name)) = sum_list (lengths {Incoming} name log)"
    "uint (bytesTx (tally log name)) = sum_list (lengths (- {Incoming}) name log)"
    "sint (pktRxCount (tally log name)) = int (length (lengths {Incoming} name log))"
    "sint (pktTxCount (tally log name)) = int (length (lengths (- {Incoming}) name log))"
    by (simp_all only: tally_words u n)
qed

text \<open>
  C19. A snapshot is exact: after a deposit and any further steps without one, the bytes and packets
  of every application in it are those of the packets accounted since, without wrap-around as long
  as these are fewer than \<open>2 ^ 31\<close> packets of non-negative length.
\<close>

theorem snapshot_exact:
  assumes "live_run (live_init interval) (es @ Deposit # es') s" "Deposit \<notin> set es'"
    and "length (accounted es') < 2 ^ 31" "\<forall>e\<in>set (accounted es'). 0 \<le> sint (pkt_len (snd e))"
  shows "let line = line_of (fst (getLiveSnapshot (storage s))) name; log = accounted es' in
    uint (bytesRx line) = sum_list (lengths {Incoming} name log) \<and>
    uint (bytesTx line) = sum_list (lengths (- {Incoming}) name log) \<and>
    sint (pktRxCount line) = int (length (lengths {Incoming} name log)) \<and>
    sint (pktTxCount line) = int (length (lengths (- {Incoming}) name log))"
proof -
  have "live_run (live_init interval) ((es @ [Deposit]) @ es') s" using assms(1) by simp
  then obtain r t where t: "live_step r Deposit t" "live_run t es' s"
    unfolding run_append run_single by blast
  from t(1) have "mApplicationTraffic (storage t) = Map.empty"
    unfolding live_step_Deposit by (elim exE conjE deposit_InrE) simp
  with memory_run [OF t(2) assms(2), of name] have "line_of (fst (getLiveSnapshot (storage s))) name = tally (accounted es') name"
    by (simp add: getLiveSnapshot_def)
  with tally_exact [OF assms(3,4), of name] show ?thesis by (simp add: Let_def)
qed

section \<open>The hook of the live streams\<close>

text \<open>The map and interval a frame has received, and the stream the storage is hooked to.\<close>

definition delivered :: "live_system \<Rightarrow> api_frame \<Rightarrow> bool" where
  "delivered s f \<longleftrightarrow> trafficMap f \<in> set (deposits s) \<and> frame_interval f = Some (mInterval (storage s))"

definition hooked :: "live_system \<Rightarrow> nat \<Rightarrow> bool" where
  "hooked s a \<longleftrightarrow> mAPIWaiting (storage s) \<and> apiMutex (storage s) = Ref a \<and>
     apiTrafficMap (storage s) = Ref a \<and> apiInterval (storage s) = Ref a"

definition stream_ok :: "live_system \<Rightarrow> nat \<Rightarrow> bool" where
  "stream_ok s a \<longleftrightarrow>
     (case streams s a of
        Some Awaiting \<Rightarrow> (case memory s a of None \<Rightarrow> False | Some f \<Rightarrow> if await_locked f then hooked s a else delivered s f)
      | Some Sending \<Rightarrow> (case memory s a of None \<Rightarrow> False | Some f \<Rightarrow> delivered s f)
      | _ \<Rightarrow> True)"

definition hook_ok :: "live_system \<Rightarrow> bool" where
  "hook_ok s \<longleftrightarrow> mAPIWaiting (storage s) \<longrightarrow>
     (\<exists>a f. hooked s a \<and> streams s a = Some Awaiting \<and> memory s a = Some f \<and> await_locked f)"

definition message_ok :: "live_system \<Rightarrow> message \<Rightarrow> bool" where
  "message_ok s m =
     (case m of Refused \<Rightarrow> True
      | Update t i \<Rightarrow> t \<in> set (deposits s) \<and> i = Some (mInterval (storage s)))"

definition live_ok :: "live_system \<Rightarrow> bool" where
  "live_ok s \<longleftrightarrow> hook_ok s \<and> (\<forall>a. stream_ok s a) \<and> (\<forall>x\<in>set (messages s). message_ok s (snd x))"

lemmas live_ok_defs = live_ok_def hook_ok_def stream_ok_def message_ok_def hooked_def delivered_def

lemma live_ok_init: "live_ok (live_init interval)"
  by (simp add: live_ok_defs live_init_def TrafficStorage_new_def)

text \<open>Steps that touch neither hook, frames, streams nor messages.\<close>

lemma traffic_frame [frame]:
  "hooked (s\<lparr>storage := (storage s)\<lparr>mApplicationTraffic := m\<rparr>, pending := q\<rparr>) = hooked s"
  "delivered (s\<lparr>storage := (storage s)\<lparr>mApplicationTraffic := m\<rparr>, pending := q\<rparr>) = delivered s"
  "message_ok (s\<lparr>storage := (storage s)\<lparr>mApplicationTraffic := m\<rparr>, pending := q\<rparr>) = message_ok s"
  "stream_ok (s\<lparr>storage := (storage s)\<lparr>mApplicationTraffic := m\<rparr>, pending := q\<rparr>) = stream_ok s"
  by (simp_all add: fun_eq_iff hooked_def delivered_def message_ok_def stream_ok_def
      split: message.split option.split stream_pc.split)

lemma live_ok_traffic:
  "live_ok (s\<lparr>storage := (storage s)\<lparr>mApplicationTraffic := m\<rparr>, pending := q\<rparr>) \<longleftrightarrow> live_ok s"
  by (simp add: live_ok_def hook_ok_def traffic_frame)

lemma line_eq: "\<exists>m. TrafficStorage_line p s = s\<lparr>mApplicationTraffic := m\<rparr>"
  by (cases s) (auto simp: TrafficStorage_line_def)

lemma await_True:
  "awaitSnapshot a a a s (mem(a \<mapsto> new_frame)) = Inr (True, s', mem') \<longleftrightarrow>
   \<not> mAPIWaiting s \<and>
   s' = s\<lparr>mAPIWaiting := True, apiMutex := Ref a, apiTrafficMap := Ref a, apiInterval := Ref a\<rparr> \<and>
   mem' = mem(a \<mapsto> new_frame\<lparr>await_locked := True\<rparr>)"
  by (auto simp: awaitSnapshot_def new_frame_def)

lemma await_False:
  "awaitSnapshot a a a s (mem(a \<mapsto> new_frame)) = Inr (False, s', mem') \<longleftrightarrow>
   mAPIWaiting s \<and> s' = s \<and> mem' = mem(a \<mapsto> new_frame)"
  by (auto simp: awaitSnapshot_def new_frame_def)

text \<open>What a turn of the deposit loop does, in a state where the hook is sound.\<close>

lemma deposit_hook_ok:
  assumes "hook_ok s"
  shows "\<not> mAPIWaiting (storage s) \<and>
      deposit log_deposit (storage s) (memory s) (deposits s) =
        Inr ((storage s)\<lparr>mApplicationTraffic := Map.empty\<rparr>, memory s, deposits s @ [mApplicationTraffic (storage s)])
    \<or> (\<exists>a f. hooked s a \<and> streams s a = Some Awaiting \<and> memory s a = Some f \<and> await_locked f \<and>
      deposit log_deposit (storage s) (memory s) (deposits s) =
        Inr ((storage s)\<lparr>mApplicationTraffic := Map.empty, mAPIWaiting := False\<rparr>,
             (memory s)(a \<mapsto> \<lparr>await_locked = False, trafficMap = mApplicationTraffic (storage s),
                             frame_interval = Some (mInterval (storage s))\<rparr>),
             deposits s @ [mApplicationTraffic (storage s)]))"
proof (cases "mAPIWaiting (storage s)")
  case False
  then show ?thesis by (simp add: deposit_def deliver_idle)
next
  case True
  with assms obtain a f where h: "hooked s a" "streams s a = Some Awaiting" "memory s a = Some f" "await_locked f"
    unfolding hook_ok_def by blast
  then have "deliver (storage s) (memory s) = Inr ((storage s)\<lparr>mAPIWaiting := False\<rparr>,
      (memory s)(a \<mapsto> \<lparr>await_locked = False, trafficMap = mApplicationTraffic (storage s),
                      frame_interval = Some (mInterval (storage s))\<rparr>))"
    by (intro deliver_hook) (auto simp: hooked_def)
  with h show ?thesis by (auto simp: deposit_def)
qed

text \<open>A stream that keeps its program counter and frame stays sound when the hook and the deposits do.\<close>

lemma stream_ok_other:
  assumes "stream_ok s a" "streams s' a = streams s a" "memory s' a = memory s a"
    and "hooked s a \<Longrightarrow> hooked s' a" "\<And>f. delivered s f \<Longrightarrow> delivered s' f"
  shows "stream_ok s' a"
  using assms by (auto simp: stream_ok_def split: option.splits stream_pc.splits if_splits)

lemma stream_ok_idle: "streams s a = Some Starting \<or> streams s a = Some Closed \<Longrightarrow> stream_ok s a"
  by (auto simp: stream_ok_def)

lemma hook_ok_not_waiting: "\<not> mAPIWaiting (storage s) \<Longrightarrow> hook_ok s"
  by (simp add: hook_ok_def)

lemma message_ok_mono:
  assumes "message_ok s m" "set (deposits s) \<subseteq> set (deposits s')" "mInterval (storage s') = mInterval (storage s)"
  shows "message_ok s' m"
  using assms by (auto simp: message_ok_def split: message.splits)

lemma delivered_mono:
  assumes "delivered s f" "set (deposits s) \<subseteq> set (deposits s')" "mInterval (storage s') = mInterval (storage s)"
  shows "delivered s' f"
  using assms by (auto simp: delivered_def)

lemma live_ok_deposit:
  assumes "live_ok s"
    and "deposit log_deposit (storage s) (memory s) (deposits s) = Inr (ts, mem, ms)"
  shows "live_ok (s\<lparr>storage := ts, memory := mem, deposits := ms\<rparr>)"
proof -
  let ?s = "s\<lparr>storage := ts, memory := mem, deposits := ms\<rparr>"
  have ok: "hook_ok s" "stream_ok s b" "\<forall>x\<in>set (messages s). message_ok s (snd x)" for b
    using assms(1) by (simp_all add: live_ok_def)
  consider (idle) "\<not> mAPIWaiting (storage s)" "ts = (storage s)\<lparr>mApplicationTraffic := Map.empty\<rparr>" "mem = memory s"
      "ms = deposits s @ [mApplicationTraffic (storage s)]"
    | (hook) a f where "hooked s a" "streams s a = Some Awaiting" "memory s a = Some f" "await_locked f"
      "ts = (storage s)\<lparr>mApplicationTraffic := Map.empty, mAPIWaiting := False\<rparr>"
      "mem = (memory s)(a \<mapsto> \<lparr>await_locked = False, trafficMap = mApplicationTraffic (storage s),
                              frame_interval = Some (mInterval (storage s))\<rparr>)"
      "ms = deposits s @ [mApplicationTraffic (storage s)]"
    using deposit_hook_ok [OF ok(1)] assms(2) by auto
  then show ?thesis
  proof cases
    case idle
    have "stream_ok ?s b" for b
      using ok(2) [of b] by (rule stream_ok_other) (use idle in \<open>auto simp: hooked_def delivered_def\<close>)
    moreover have "\<forall>x\<in>set (messages ?s). message_ok ?s (snd x)"
      using ok(3) idle by (auto intro: message_ok_mono)
    ultimately show ?thesis
      using idle(1,2) by (simp add: live_ok_def hook_ok_not_waiting)
  next
    case hook
    have "stream_ok ?s b" for b
    proof (cases "b = a")
      case True
      with hook show ?thesis by (simp add: stream_ok_def delivered_def)
    next
      case False
      show ?thesis
        using ok(2) [of b] False hook
        by (auto simp: stream_ok_def hooked_def delivered_def split: option.splits stream_pc.splits if_splits)
    qed
    moreover have "\<forall>x\<in>set (messages ?s). message_ok ?s (snd x)"
      using ok(3) hook by (auto intro: message_ok_mono)
    ultimately show ?thesis
      using hook(5) by (simp add: live_ok_def hook_ok_not_waiting)
  qed
qed

text \<open>A step of one stream that is not the one the storage is hooked to.\<close>

lemma live_ok_local:
  assumes "live_ok s" and "\<And>b. b \<noteq> a \<Longrightarrow> streams s' b = streams s b \<and> memory s' b = memory s b"
    and eq: "storage s' = storage s" "deposits s' = deposits s"
    and "\<And>f. streams s a = Some Awaiting \<Longrightarrow> memory s a = Some f \<Longrightarrow> \<not> await_locked f"
    and "stream_ok s' a" "\<And>x. x \<in> set (messages s') \<Longrightarrow> x \<in> set (messages s) \<or> message_ok s' (snd x)"
  shows "live_ok s'"
proof -
  have ok: "hook_ok s" "\<And>b. stream_ok s b" "\<And>x. x \<in> set (messages s) \<Longrightarrow> message_ok s (snd x)"
    using assms(1) by (simp_all add: live_ok_def)
  have "hook_ok s'"
    unfolding hook_ok_def
  proof
    assume "mAPIWaiting (storage s')"
    with ok(1) eq obtain b f where b: "hooked s b" "streams s b = Some Awaiting" "memory s b = Some f" "await_locked f"
      unfolding hook_ok_def by auto
    with assms(5) [of f] have "b \<noteq> a" by auto
    with b assms(2) [of b] eq
    show "\<exists>b f. hooked s' b \<and> streams s' b = Some Awaiting \<and> memory s' b = Some f \<and> await_locked f"
      by (auto simp: hooked_def)
  qed
  moreover have "stream_ok s' b" for b
  proof (cases "b = a")
    case False
    show ?thesis
      using ok(2) [of b] by (rule stream_ok_other) (use assms(2) [OF False] eq in \<open>auto simp: hooked_def delivered_def\<close>)
  qed (simp add: assms(6))
  moreover have "message_ok s' (snd x)" if "x \<in> set (messages s')" for x
    using assms(7) [OF that] message_ok_mono [OF ok(3), of x s'] eq by auto
  ultimately show ?thesis by (simp add: live_ok_def)
qed

lemma live_ok_subscribe:
  assumes "live_ok s" "streams s a = Some Starting"
    and "awaitSnapshot a a a (storage s) ((memory s)(a \<mapsto> new_frame)) = Inr (True, ts, mem)"
  shows "live_ok (s\<lparr>storage := ts, memory := mem, streams := (streams s)(a \<mapsto> Awaiting)\<rparr>)"
proof -
  let ?s = "s\<lparr>storage := ts, memory := mem, streams := (streams s)(a \<mapsto> Awaiting)\<rparr>"
  have ok: "\<And>b. stream_ok s b" "\<And>x. x \<in> set (messages s) \<Longrightarrow> message_ok s (snd x)"
    using assms(1) by (simp_all add: live_ok_def)
  have new: "\<not> mAPIWaiting (storage s)"
    "ts = (storage s)\<lparr>mAPIWaiting := True, apiMutex := Ref a, apiTrafficMap := Ref a, apiInterval := Ref a\<rparr>"
    "mem = (memory s)(a \<mapsto> new_frame\<lparr>await_locked := True\<rparr>)"
    using assms(3) by (simp_all add: await_True)
  have "hooked ?s a" using new by (simp add: hooked_def)
  then have "hook_ok ?s" "stream_ok ?s a"
    using new by (auto simp: hook_ok_def stream_ok_def)
  moreover have "stream_ok ?s b" if "b \<noteq> a" for b
    using ok(1) [of b] by (rule stream_ok_other) (use that new in \<open>auto simp: hooked_def delivered_def\<close>)
  ultimately have "stream_ok ?s b" for b by (cases "b = a") simp_all
  moreover have "message_ok ?s (snd x)" if "x \<in> set (messages s)" for x
    using ok(2) [OF that] by (rule message_ok_mono) (use new in simp_all)
  ultimately show ?thesis using \<open>hook_ok ?s\<close> by (simp add: live_ok_def)
qed

lemma live_ok_step [invariant_intros]:
  assumes "live_ok s" "live_step s e s'"
  shows "live_ok s'"
  using assms(2)
proof (cases rule: live_step.cases)
  case (step_Fetch p pkt)
  obtain m where "TrafficStorage_line p (storage s) = (storage s)\<lparr>mApplicationTraffic := m\<rparr>" using line_eq by blast
  with step_Fetch assms(1) show ?thesis by (simp add: live_ok_traffic)
next
  case (step_Account p pkt ts)
  from step_Account(4) obtain m where "ts = (storage s)\<lparr>mApplicationTraffic := m\<rparr>" by (elim account_InrE) simp
  with step_Account assms(1) show ?thesis by (simp add: live_ok_traffic)
next
  case (step_Deposit ts mem ms)
  with assms(1) show ?thesis by (simp add: live_ok_deposit)
next
  case (step_Connect a)
  then show ?thesis
    using assms(1) by (intro live_ok_local [of s a s']) (auto intro: stream_ok_idle)
next
  case (step_Subscribe a ts mem)
  with assms(1) show ?thesis by (simp add: live_ok_subscribe)
next
  case (step_Refuse a ts mem)
  then show ?thesis
    using assms(1)
    by (intro live_ok_local [of s a s']) (auto simp: await_False message_ok_def intro: stream_ok_idle)
next
  case (step_Wake a f)
  have "stream_ok s a" using assms(1) by (simp add: live_ok_def)
  with step_Wake have "delivered s f" by (simp add: stream_ok_def)
  with step_Wake have "stream_ok s' a" by (simp add: stream_ok_def delivered_def)
  with step_Wake show ?thesis
    using assms(1) by (intro live_ok_local [of s a s']) auto
next
  case (step_Send a f ok)
  have "stream_ok s a" using assms(1) by (simp add: live_ok_def)
  with step_Send have "delivered s f" by (simp add: stream_ok_def)
  with step_Send show ?thesis
    using assms(1)
    by (intro live_ok_local [of s a s'])
      (auto simp: message_ok_def delivered_def intro: stream_ok_idle split: if_splits)
qed

lemma live_ok_run: "live_run s es s' \<Longrightarrow> live_ok s \<Longrightarrow> live_ok s'"
  by (induction rule: live_run.induct) (auto intro: live_ok_step)

lemma live_ok_reachable: "live_run (live_init interval) es s \<Longrightarrow> live_ok s"
  using live_ok_run live_ok_init by blast

text \<open>The hash maps stay finite.\<close>

definition finite_maps :: "live_system \<Rightarrow> bool" where
  "finite_maps s \<longleftrightarrow> finite (dom (mApplicationTraffic (storage s))) \<and> (\<forall>m\<in>set (deposits s). finite (dom m))"

lemma finite_maps_step: "live_step s e s' \<Longrightarrow> finite_maps s \<Longrightarrow> finite_maps s'"
proof (induction rule: live_step.induct)
  case (step_Account s p pkt ts)
  then show ?case by (auto simp: finite_maps_def elim!: account_InrE)
next
  case (step_Deposit s ts mem ms)
  then show ?case by (auto simp: finite_maps_def elim!: deposit_InrE)
qed (auto simp: finite_maps_def TrafficStorage_line_def dest: await_frame)

lemma finite_maps_run: "live_run (live_init interval) es s \<Longrightarrow> finite_maps s"
proof (induction "live_init interval" es s rule: live_run.induct)
  case run_Nil
  then show ?case by (simp add: finite_maps_def live_init_def TrafficStorage_new_def)
qed (auto intro: finite_maps_step)

section \<open>Running the system\<close>

text \<open>The same steps as a function, which computes the state after a sequence of events.\<close>

fun live_exec :: "event \<Rightarrow> live_system \<Rightarrow> live_system option" where
  "live_exec (Fetch p pkt) s =
     (if pending s = None then Some (s\<lparr>storage := TrafficStorage_line p (storage s), pending := Some (p, pkt)\<rparr>) else None)"
| "live_exec (Account p pkt) s =
     (if pending s = Some (p, pkt)
      then (case TrafficStorage_account p pkt (storage s) of Inl _ \<Rightarrow> None | Inr ts \<Rightarrow> Some (s\<lparr>storage := ts, pending := None\<rparr>))
      else None)"
| "live_exec Deposit s =
     (case deposit log_deposit (storage s) (memory s) (deposits s) of
        Inl _ \<Rightarrow> None
      | Inr (ts, mem, ms) \<Rightarrow> Some (s\<lparr>storage := ts, memory := mem, deposits := ms\<rparr>))"
| "live_exec (Connect a) s =
     (if streams s a = None then Some (s\<lparr>streams := (streams s)(a \<mapsto> Starting)\<rparr>) else None)"
| "live_exec (Subscribe a) s =
     (if streams s a = Some Starting
      then (case awaitSnapshot a a a (storage s) ((memory s)(a \<mapsto> new_frame)) of
              Inr (True, ts, mem) \<Rightarrow> Some (s\<lparr>storage := ts, memory := mem, streams := (streams s)(a \<mapsto> Awaiting)\<rparr>)
            | _ \<Rightarrow> None)
      else None)"
| "live_exec (Refuse a) s =
     (if streams s a = Some Starting
      then (case awaitSnapshot a a a (storage s) ((memory s)(a \<mapsto> new_frame)) of
              Inr (False, ts, mem) \<Rightarrow>
                Some (s\<lparr>storage := ts, memory := mem(a := None), streams := (streams s)(a \<mapsto> Closed),
                        messages := messages s @ [(a, Refused)]\<rparr>)
            | _ \<Rightarrow> None)
      else None)"
| "live_exec (Wake a) s =
     (case (streams s a, memory s a) of
        (Some Awaiting, Some f) \<Rightarrow>
          if await_locked f then None
          else Some (s\<lparr>memory := (memory s)(a \<mapsto> f\<lparr>await_locked := True\<rparr>), streams := (streams s)(a \<mapsto> Sending)\<rparr>)
      | _ \<Rightarrow> None)"
| "live_exec (Send a ok) s =
     (case (streams s a, memory s a) of
        (Some Sending, Some f) \<Rightarrow>
          Some (s\<lparr>memory := (memory s)(a := None),
                  streams := (streams s)(a \<mapsto> (if ok then Starting else Closed)),
                  messages := (if ok then messages s @ [(a, Update (trafficMap f) (frame_interval f))] else messages s)\<rparr>)
      | _ \<Rightarrow> None)"

lemma live_step_iff: "live_step s e s' \<longleftrightarrow> live_exec e s = Some s'"
proof
  show "live_step s e s' \<Longrightarrow> live_exec e s = Some s'"
    by (induction rule: live_step.induct) auto
  show "live_exec e s = Some s' \<Longrightarrow> live_step s e s'"
    by (cases e) (auto split: if_splits sum.splits option.splits stream_pc.splits bool.splits
        intro: live_step.intros step_Send [where ok = True, simplified] step_Send [where ok = False, simplified])
qed

fun live_execs :: "event list \<Rightarrow> live_system \<Rightarrow> live_system option" where
  "live_execs [] s = Some s"
| "live_execs (e # es) s = Option.bind (live_exec e s) (live_execs es)"

lemma live_execs_append: "live_execs (es @ es') s = Option.bind (live_execs es s) (live_execs es')"
  by (induction es arbitrary: s) (auto split: Option.bind_splits)

lemma live_run_iff: "live_run s es s' \<longleftrightarrow> live_execs es s = Some s'"
proof (induction es arbitrary: s' rule: rev_induct)
  case (snoc e es)
  then show ?case
    by (auto simp: run_snoc_iff live_step_iff live_execs_append split: Option.bind_splits)
qed auto

section \<open>Properties of the live streams\<close>

text \<open>A sample run: a stream is connected and hooked, and one packet of \<open>ssh\<close> is accounted.\<close>

definition sample_ssh :: Process where
  "sample_ssh = \<lparr>comm = ''ssh'', proc_pid = 10\<rparr>"

definition sample_incoming :: Packet where
  "sample_incoming = Packet_init\<lparr>pkt_len := 60, direction := Incoming\<rparr>"

definition sample_line :: TrafficLine where
  "sample_line = \<lparr>bytesRx = 60, bytesTx = 0, pktRxCount = 1, pktTxCount = 0\<rparr>"

definition sample_events :: "event list" where
  "sample_events = [Connect 1, Subscribe 1, Fetch sample_ssh sample_incoming, Account sample_ssh sample_incoming]"

definition sample_system :: live_system where
  "sample_system =
     \<lparr>storage = \<lparr>mApplicationTraffic = [''ssh'' \<mapsto> sample_line], mInterval = 10, mAPIWaiting = True,
                 apiMutex = Ref 1, apiTrafficMap = Ref 1, apiInterval = Ref 1\<rparr>,
      memory = [1 \<mapsto> \<lparr>await_locked = True, trafficMap = Map.empty, frame_interval = None\<rparr>],
      streams = [1 \<mapsto> Awaiting], messages = [], pending = None, deposits = []\<rparr>"

lemmas sample_defs = sample_ssh_def sample_incoming_def sample_line_def sample_system_def

lemma sample_run: "live_run (live_init 10) sample_events sample_system"
  by (simp add: live_run_iff sample_events_def sample_defs live_init_def TrafficStorage_new_def awaitSnapshot_def
      new_frame_def TrafficStorage_line_def TrafficStorage_account_def TrafficLine_init_def Packet_init_def)

theorem traffic_conserved_witness:
  "sum_list (map (\<lambda>m. line_of m ''ssh'') (deposits sample_system)) +
     line_of (fst (getLiveSnapshot (storage sample_system))) ''ssh'' = tally (accounted sample_events) ''ssh''"
  by (rule traffic_conserved [OF sample_run])

definition after_deposit :: live_system where
  "after_deposit = sample_system
     \<lparr>storage := (storage sample_system)\<lparr>mApplicationTraffic := Map.empty, mAPIWaiting := False\<rparr>,
      memory := [1 \<mapsto> \<lparr>await_locked = False, trafficMap = [''ssh'' \<mapsto> sample_line], frame_interval = Some 10\<rparr>],
      deposits := [[''ssh'' \<mapsto> sample_line]]\<rparr>"

lemma sample_deposit: "live_execs [Deposit] sample_system = Some after_deposit"
  by (simp add: after_deposit_def sample_system_def deposit_def deliver_def write_frame_def)

lemma sample_run_deposit: "live_run (live_init 10) (sample_events @ [Deposit]) after_deposit"
  using sample_run sample_deposit by (auto simp: live_run_iff live_execs_append)

theorem snapshot_exact_witness:
  "\<exists>s. live_run (live_init 10) (sample_events @ Deposit # [Fetch sample_ssh sample_incoming, Account sample_ssh sample_incoming]) s \<and>
     uint (bytesRx (line_of (fst (getLiveSnapshot (storage s))) ''ssh'')) = 60"
proof -
  let ?es = "[Fetch sample_ssh sample_incoming, Account sample_ssh sample_incoming]"
  have "live_execs ?es after_deposit \<noteq> None"
    by (simp add: after_deposit_def sample_defs TrafficStorage_line_def TrafficStorage_account_def)
  then obtain s where "live_execs ?es after_deposit = Some s" by blast
  then have run: "live_run (live_init 10) (sample_events @ Deposit # ?es) s"
    using sample_run_deposit run_append [of _ "sample_events @ [Deposit]" ?es] by (auto simp: live_run_iff)
  have len: "lengths {Incoming} ''ssh'' (accounted ?es) = [60]"
    by (simp add: sample_ssh_def sample_incoming_def lengths_def)
  show ?thesis
    using snapshot_exact [OF run, of "''ssh''"] run len
    by (auto simp: Let_def sample_incoming_def)
qed

text \<open>
  C10. A deposit always succeeds and serves the waiting stream: in every reachable state no pointer
  that was never set or whose variable has gone is used, the traffic in memory is deposited, and
  each waiting stream can go on afterwards, the hooked one with exactly the deposited traffic.
\<close>

theorem deposit_serves_streams:
  assumes "live_run (live_init interval) es s"
  shows "\<exists>ts mem. deposit log_deposit (storage s) (memory s) (deposits s) =
      Inr (ts, mem, deposits s @ [mApplicationTraffic (storage s)]) \<and>
    mApplicationTraffic ts = Map.empty \<and> \<not> mAPIWaiting ts \<and>
    (\<forall>a. streams s a = Some Awaiting \<longrightarrow>
      (\<exists>f g. memory s a = Some f \<and> mem a = Some g \<and> \<not> await_locked g \<and>
        (if await_locked f then trafficMap g = mApplicationTraffic (storage s) else g = f)))"
proof -
  have ok: "hook_ok s" "\<And>a. stream_ok s a"
    using live_ok_reachable [OF assms] by (simp_all add: live_ok_def)
  have waiting: "\<exists>f. memory s a = Some f \<and> (await_locked f \<longrightarrow> hooked s a)" if "streams s a = Some Awaiting" for a
    using ok(2) [of a] that by (auto simp: stream_ok_def split: option.splits if_splits)
  show ?thesis
    using deposit_hook_ok [OF ok(1)]
  proof (elim disjE conjE exE)
    assume "\<not> mAPIWaiting (storage s)"
    and d: "deposit log_deposit (storage s) (memory s) (deposits s) =
      Inr ((storage s)\<lparr>mApplicationTraffic := Map.empty\<rparr>, memory s, deposits s @ [mApplicationTraffic (storage s)])"
    then show ?thesis using waiting by (fastforce simp: hooked_def)
  next
    fix a f
    assume a: "hooked s a" "streams s a = Some Awaiting" "memory s a = Some f" "await_locked f"
    and d: "deposit log_deposit (storage s) (memory s) (deposits s) =
        Inr ((storage s)\<lparr>mApplicationTraffic := Map.empty, mAPIWaiting := False\<rparr>,
             (memory s)(a \<mapsto> \<lparr>await_locked = False, trafficMap = mApplicationTraffic (storage s),
                             frame_interval = Some (mInterval (storage s))\<rparr>),
             deposits s @ [mApplicationTraffic (storage s)])"
    have other: "\<not> hooked s b" if "b \<noteq> a" for b using a(1) that by (simp add: hooked_def)
    let ?mem = "(memory s)(a \<mapsto> \<lparr>await_locked = False, trafficMap = mApplicationTraffic (storage s),
                           frame_interval = Some (mInterval (storage s))\<rparr>)"
    have all: "\<forall>b. streams s b = Some Awaiting \<longrightarrow>
        (\<exists>f g. memory s b = Some f \<and> ?mem b = Some g \<and> \<not> await_locked g \<and>
          (if await_locked f then trafficMap g = mApplicationTraffic (storage s) else g = f))"
    proof (intro allI impI)
      fix b assume "streams s b = Some Awaiting"
      with waiting other obtain f' where "memory s b = Some f'" "b \<noteq> a \<Longrightarrow> \<not> await_locked f'" by blast
      then show "\<exists>f g. memory s b = Some f \<and> ?mem b = Some g \<and> \<not> await_locked g \<and>
          (if await_locked f then trafficMap g = mApplicationTraffic (storage s) else g = f)"
        using a(3,4) by (cases "b = a") simp_all
    qed
    show ?thesis
      by (rule exI, rule exI, rule conjI [OF d], intro conjI all) simp_all
  qed
qed

theorem deposit_serves_streams_witness:
  "\<exists>ts mem. deposit log_deposit (storage sample_system) (memory sample_system) (deposits sample_system) =
      Inr (ts, mem, [[''ssh'' \<mapsto> sample_line]]) \<and>
    (\<exists>g. mem 1 = Some g \<and> \<not> await_locked g \<and> trafficMap g = [''ssh'' \<mapsto> sample_line])"
proof -
  have facts: "streams sample_system 1 = Some Awaiting" "deposits sample_system = []"
    "\<exists>f. memory sample_system 1 = Some f \<and> await_locked f"
    "mApplicationTraffic (storage sample_system) = [''ssh'' \<mapsto> sample_line]"
    by (simp_all add: sample_system_def)
  then show ?thesis using deposit_serves_streams [OF sample_run] by fastforce
qed

lemma interval_run:
  assumes "live_run (live_init interval) es s"
  shows "mInterval (storage s) = interval"
  using assms
proof (induction "live_init interval" es s rule: live_run.induct)
  case (run_snoc es t e u)
  from run_snoc(3) have "mInterval (storage u) = mInterval (storage t)"
    by (cases rule: live_step.cases) (auto elim!: account_InrE deposit_InrE dest!: deliver_frame await_frame)
  with run_snoc show ?case by simp
qed (simp add: live_init_def TrafficStorage_new_def)

lemma update_interval:
  assumes "live_run (live_init interval) es s" "(a, Update t i) \<in> set (messages s)"
  shows "t \<in> set (deposits s) \<and> i = Some interval"
proof -
  have "message_ok s (Update t i)"
    using live_ok_reachable [OF assms(1)] assms(2) by (fastforce simp: live_ok_def)
  then show ?thesis by (simp add: message_ok_def interval_run [OF assms(1)])
qed

text \<open>
  A stream only ever sends what was deposited: every update a client receives is the whole
  traffic of one deposit, with the configured interval.
\<close>

theorem updates_are_deposits:
  assumes "live_run (live_init interval) es s" "(a, Update t i) \<in> set (messages s)"
  shows "t \<in> set (deposits s) \<and> i = Some interval"
  by (rule update_interval [OF assms])

definition after_send :: live_system where
  "after_send = after_deposit
     \<lparr>memory := Map.empty, streams := [1 \<mapsto> Starting],
      messages := [(1, Update [''ssh'' \<mapsto> sample_line] (Some 10))]\<rparr>"

lemma sample_run_send: "live_run (live_init 10) (sample_events @ [Deposit, Wake 1, Send 1 True]) after_send"
proof -
  have "live_execs [Wake 1, Send 1 True] after_deposit = Some after_send"
    by (simp add: after_send_def after_deposit_def sample_system_def)
  then show ?thesis
    using sample_run_deposit run_append [of _ "sample_events @ [Deposit]" "[Wake 1, Send 1 True]"]
    by (auto simp: live_run_iff)
qed

theorem updates_are_deposits_witness:
  "(1, Update [''ssh'' \<mapsto> sample_line] (Some 10)) \<in> set (messages after_send) \<and>
   [''ssh'' \<mapsto> sample_line] \<in> set (deposits after_send)"
proof -
  have "(1, Update [''ssh'' \<mapsto> sample_line] (Some 10)) \<in> set (messages after_send)"
    by (simp add: after_send_def)
  with updates_are_deposits [OF sample_run_send this] show ?thesis by simp
qed

text \<open>The streams that hold the storage's only place.\<close>

definition holds_place :: "live_system \<Rightarrow> nat \<Rightarrow> bool" where
  "holds_place s a \<longleftrightarrow> streams s a = Some Awaiting \<and> map_option await_locked (memory s a) = Some True"

lemma holds_place_hooked:
  assumes "live_ok s" "holds_place s a"
  shows "hooked s a"
proof -
  have "stream_ok s a" using assms(1) by (simp add: live_ok_def)
  with assms(2) show ?thesis by (auto simp: stream_ok_def holds_place_def)
qed

lemma waiting_iff:
  assumes "live_ok s"
  shows "mAPIWaiting (storage s) \<longleftrightarrow> (\<exists>a. holds_place s a)"
proof
  assume "mAPIWaiting (storage s)"
  with assms obtain a f where "streams s a = Some Awaiting" "memory s a = Some f" "await_locked f"
    unfolding live_ok_def hook_ok_def by blast
  then show "\<exists>a. holds_place s a" by (auto simp: holds_place_def)
next
  assume "\<exists>a. holds_place s a"
  with holds_place_hooked [OF assms] show "mAPIWaiting (storage s)" by (auto simp: hooked_def)
qed

text \<open>
  C15. One stream at a time: no two streams wait for a deposit, and a stream at the start of its turn
  is hooked exactly when none is waiting; otherwise it gets the error message and is closed, and
  neither the storage nor the waiting stream changes.
\<close>

theorem one_stream_at_a_time:
  assumes "live_run (live_init interval) es s"
  shows "(holds_place s a \<and> holds_place s b \<longrightarrow> a = b) \<and>
    (streams s b = Some Starting \<longrightarrow>
      (if \<exists>a. holds_place s a
       then (\<exists>s'. live_step s (Refuse b) s' \<and> streams s' b = Some Closed \<and> storage s' = storage s \<and>
               messages s' = messages s @ [(b, Refused)] \<and> (\<forall>a. holds_place s a \<longrightarrow> holds_place s' a)) \<and>
            \<not> (\<exists>s'. live_step s (Subscribe b) s')
       else \<exists>s'. live_step s (Subscribe b) s' \<and> holds_place s' b))"
proof (intro conjI impI)
  have ok: "live_ok s" using live_ok_reachable [OF assms] .
  show "a = b" if "holds_place s a \<and> holds_place s b"
    using holds_place_hooked [OF ok, of a] holds_place_hooked [OF ok, of b] that by (simp add: hooked_def)
  assume b: "streams s b = Some Starting"
  let ?mem = "(memory s)(b \<mapsto> new_frame)"
  show "if \<exists>a. holds_place s a
       then (\<exists>s'. live_step s (Refuse b) s' \<and> streams s' b = Some Closed \<and> storage s' = storage s \<and>
               messages s' = messages s @ [(b, Refused)] \<and> (\<forall>a. holds_place s a \<longrightarrow> holds_place s' a)) \<and>
            \<not> (\<exists>s'. live_step s (Subscribe b) s')
       else \<exists>s'. live_step s (Subscribe b) s' \<and> holds_place s' b"
  proof (cases "mAPIWaiting (storage s)")
    case True
    then have "awaitSnapshot b b b (storage s) ?mem = Inr (False, storage s, ?mem)" by (simp add: awaitSnapshot_def)
    with b True waiting_iff [OF ok] show ?thesis
      by (auto simp: live_step_iff holds_place_def)
  next
    case False
    let ?ts = "(storage s)\<lparr>mAPIWaiting := True, apiMutex := Ref b, apiTrafficMap := Ref b, apiInterval := Ref b\<rparr>"
    from False have "awaitSnapshot b b b (storage s) ?mem = Inr (True, ?ts, (memory s)(b \<mapsto> new_frame\<lparr>await_locked := True\<rparr>))"
      by (simp add: await_True)
    with b False waiting_iff [OF ok] show ?thesis
      by (auto simp: live_step_iff holds_place_def)
  qed
qed

definition second_stream :: live_system where
  "second_stream = sample_system\<lparr>streams := [1 \<mapsto> Awaiting, 2 \<mapsto> Starting]\<rparr>"

theorem one_stream_at_a_time_witness:
  "holds_place second_stream 1 \<and>
   (\<exists>s'. live_step second_stream (Refuse 2) s' \<and> streams s' 2 = Some Closed \<and> holds_place s' 1)"
proof -
  have "live_execs [Connect 2] sample_system = Some second_stream"
    by (simp add: second_stream_def sample_system_def fun_upd_twist)
  then have run: "live_run (live_init 10) (sample_events @ [Connect 2]) second_stream"
    using sample_run by (auto simp: live_run_iff live_execs_append)
  have h: "holds_place second_stream 1" "streams second_stream 2 = Some Starting"
    by (simp_all add: second_stream_def sample_system_def holds_place_def)
  then have ex: "\<exists>a. holds_place second_stream a" by blast
  show ?thesis
    using one_stream_at_a_time [OF run, of 1 2] h unfolding if_P [OF ex] by blast
qed

text \<open>The deposit that serves the stream in place, and what the stream can then do.\<close>

lemma served:
  assumes "live_ok s" "holds_place s a" "live_step s Deposit s1"
  shows "\<not> mAPIWaiting (storage s1)" "streams s1 = streams s" "messages s1 = messages s"
    and "memory s1 a = Some \<lparr>await_locked = False, trafficMap = mApplicationTraffic (storage s),
      frame_interval = Some (mInterval (storage s))\<rparr>"
proof -
  have a: "hooked s a" using holds_place_hooked assms(1,2) by blast
  have "hook_ok s" using assms(1) by (simp add: live_ok_def)
  from deposit_hook_ok [OF this] a obtain b where b: "hooked s b"
    "deposit log_deposit (storage s) (memory s) (deposits s) =
      Inr ((storage s)\<lparr>mApplicationTraffic := Map.empty, mAPIWaiting := False\<rparr>,
           (memory s)(b \<mapsto> \<lparr>await_locked = False, trafficMap = mApplicationTraffic (storage s),
                           frame_interval = Some (mInterval (storage s))\<rparr>),
           deposits s @ [mApplicationTraffic (storage s)])"
    by (auto simp: hooked_def)
  moreover from this a have "b = a" by (simp add: hooked_def)
  ultimately show "\<not> mAPIWaiting (storage s1)" "streams s1 = streams s" "messages s1 = messages s"
    "memory s1 a = Some \<lparr>await_locked = False, trafficMap = mApplicationTraffic (storage s),
      frame_interval = Some (mInterval (storage s))\<rparr>"
    using assms(3) by auto
qed

text \<open>
  C40. A stream keeps its place for one update only. Whatever happened before, a deposit that serves a
  stream frees the place; the stream sends its update, but then a newcomer that subscribes before it
  takes the place, and the established stream gets the error message and is closed. The
  newcomer is the one that is closed when the established stream subscribes first.
\<close>

theorem served_stream_displaced:
  assumes "live_run (live_init interval) es s" "holds_place s a" "streams s b = Some Starting" "live_step s Deposit s1"
  shows "(\<forall>c. \<not> holds_place s1 c) \<and>
    (\<exists>s2. live_run s1 [Wake a, Send a True, Subscribe b, Refuse a] s2 \<and> holds_place s2 b \<and> streams s2 a = Some Closed \<and>
      messages s2 = messages s @ [(a, Update (mApplicationTraffic (storage s)) (Some interval)), (a, Refused)]) \<and>
    (\<exists>s2. live_run s1 [Wake a, Send a True, Subscribe a, Refuse b] s2 \<and> holds_place s2 a \<and> streams s2 b = Some Closed \<and>
      messages s2 = messages s @ [(a, Update (mApplicationTraffic (storage s)) (Some interval)), (b, Refused)])"
proof -
  have ok: "live_ok s" using live_ok_reachable [OF assms(1)] .
  have "live_run (live_init interval) (es @ [Deposit]) s1" using assms(1,4) by (auto intro: run_snoc)
  then have ok1: "live_ok s1" by (rule live_ok_reachable)
  note sv = served [OF ok assms(2,4)] interval_run [OF assms(1)]
  have a: "streams s a = Some Awaiting" using assms(2) by (simp add: holds_place_def)
  with assms(3) have ab: "a \<noteq> b" by auto
  have "\<forall>c. \<not> holds_place s1 c" using waiting_iff [OF ok1] sv(1) by blast
  with sv a assms(3) ab show ?thesis
    by (auto simp: live_run_iff awaitSnapshot_def new_frame_def holds_place_def)
qed

text \<open>The stream 1 of the sample run, and a second one that connected.\<close>

theorem served_stream_displaced_witness:
  "\<exists>s1 s2. live_step second_stream Deposit s1 \<and> live_run s1 [Wake 1, Send 1 True, Subscribe 2, Refuse 1] s2 \<and>
     holds_place s2 2 \<and> messages s2 = [(1, Update [''ssh'' \<mapsto> sample_line] (Some 10)), (1, Refused)]"
proof -
  have "live_execs [Connect 2] sample_system = Some second_stream"
    by (simp add: second_stream_def sample_system_def fun_upd_twist)
  then have run: "live_run (live_init 10) (sample_events @ [Connect 2]) second_stream"
    using sample_run by (auto simp: live_run_iff live_execs_append)
  have h: "holds_place second_stream 1" "streams second_stream 2 = Some Starting" "messages second_stream = []"
    "mApplicationTraffic (storage second_stream) = [''ssh'' \<mapsto> sample_line]"
    by (simp_all add: second_stream_def sample_system_def holds_place_def)
  have "\<exists>s1. live_step second_stream Deposit s1"
    by (simp add: second_stream_def sample_system_def deposit_def deliver_def write_frame_def)
  then obtain s1 where s1: "live_step second_stream Deposit s1" ..
  from served_stream_displaced [OF run h(1,2) s1] s1 h(3,4) show ?thesis by auto
qed

section \<open>The race between accounting and depositing\<close>

lemma fetch_run:
  assumes "live_run s es s'" "pending s = Some (p, pkt)" "\<forall>q k. Account q k \<notin> set es"
    and "comm p \<in> dom (mApplicationTraffic (storage s))"
  shows "pending s' = Some (p, pkt) \<and>
    (if Deposit \<in> set es then mApplicationTraffic (storage s') = Map.empty
     else comm p \<in> dom (mApplicationTraffic (storage s')))"
  using assms
proof (induction rule: live_run.induct)
  case (run_snoc s es t e u)
  then have IH: "pending t = Some (p, pkt)"
    "if Deposit \<in> set es then mApplicationTraffic (storage t) = Map.empty
     else comm p \<in> dom (mApplicationTraffic (storage t))"
    by simp_all
  from run_snoc(2) show ?case
  proof (cases rule: live_step.cases)
    case (step_Account q k ts)
    with run_snoc(5) show ?thesis by auto
  next
    case (step_Deposit ts mem ms)
    from step_Deposit(3) have "mApplicationTraffic ts = Map.empty" by (elim deposit_InrE) simp
    with step_Deposit IH show ?thesis by simp
  qed (use IH in \<open>auto dest!: await_frame split: if_splits\<close>)
qed simp

text \<open>
  C18. \<open>add\<close> takes its reference outside of the lock. A packet whose line was fetched is accounted
  if no deposit comes before it has the lock; if one does, the line it updates has been erased, whatever
  else happens in between.
\<close>

theorem add_deposit_race:
  assumes "live_run s (Fetch p pkt # es) s'" "\<forall>q k. Account q k \<notin> set es"
  shows "TrafficStorage_account p pkt (storage s') = Inl Undefined \<longleftrightarrow> Deposit \<in> set es"
proof -
  have "live_run s ([Fetch p pkt] @ es) s'" using assms(1) by simp
  then obtain t where t: "live_step s (Fetch p pkt) t" "live_run t es s'"
    unfolding run_append run_single by blast
  then have "pending t = Some (p, pkt)" "comm p \<in> dom (mApplicationTraffic (storage t))"
    by (auto simp: TrafficStorage_line_def)
  with fetch_run [OF t(2) _ assms(2)] show ?thesis
    by (simp add: account_cases split: if_splits)
qed

theorem add_deposit_race_witness:
  "\<exists>s. live_run (live_init 10) [Fetch sample_ssh sample_incoming, Deposit] s \<and>
     TrafficStorage_account sample_ssh sample_incoming (storage s) = Inl Undefined"
proof -
  have "live_execs [Fetch sample_ssh sample_incoming, Deposit] (live_init 10) \<noteq> None"
    by (simp add: live_init_def TrafficStorage_new_def TrafficStorage_line_def deposit_def deliver_def)
  then obtain s where s: "live_run (live_init 10) [Fetch sample_ssh sample_incoming, Deposit] s"
    by (auto simp: live_run_iff)
  with add_deposit_race [OF s] show ?thesis by auto
qed

end
