(* ===== verification/API_Controller.thy ===== *)
theory API_Controller
  imports String_Util Live_Stream "HOL-Library.Char_ord" "HOL-Library.List_Lexorder"
begin

text \<open>
  \<open>src/src/api/APIController.cpp\<close>: what the API server does with a request. A JSON object is kept as the
  library keeps it, sorted by key (bytewise, as \<open>std::string\<close> compares); its textual form is that
  of the library's \<open>dump\<close>, an argument of what sends it (\<open>send_json\<close> in \<open>API_Server\<close>). Traffic comes as the
  list of entries a loop over the unordered map visits, in an order nothing is assumed about. The traffic storage's snapshot and the database's answers are arguments.
\<close>

section \<open>JSON\<close>

datatype json = JNull | JText string | JNumber int | JObject "(string \<times> json) list"

fun put :: "string \<Rightarrow> json \<Rightarrow> (string \<times> json) list \<Rightarrow> (string \<times> json) list" where
  "put k v [] = [(k, v)]"
| "put k v ((k', v') # kvs) =
     (if k < k' then (k, v) # (k', v') # kvs
      else if k = k' then (k, v) # kvs
      else (k', v') # put k v kvs)"

text \<open>\<open>object[key] = value\<close>; a null value becomes an object first.\<close>

definition json_set :: "string \<Rightarrow> json \<Rightarrow> json \<Rightarrow> json" where
  "json_set k v j = (case j of JObject kvs \<Rightarrow> JObject (put k v kvs) | _ \<Rightarrow> JObject [(k, v)])"

definition json_get :: "string \<Rightarrow> json \<Rightarrow> json" where
  "json_get k j = (case j of JObject kvs \<Rightarrow> (case map_of kvs k of Some v \<Rightarrow> v | None \<Rightarrow> JNull) | _ \<Rightarrow> JNull)"

definition has_key :: "string \<Rightarrow> json \<Rightarrow> bool" where
  "has_key k j = (case j of JObject kvs \<Rightarrow> k \<in> fst ` set kvs | _ \<Rightarrow> False)"

text \<open>
  \<open>dump\<close> prints a value, or throws an exception (\<open>None\<close>). The library documents that it does so exactly when
  a string or a key in the value is not valid UTF-8. The encoding is that of the Unicode standard: \<open>n\<close> bytes of
  a character are still to come, the next of them between \<open>lo\<close> and \<open>hi\<close>.
\<close>

fun utf8_rest :: "nat \<Rightarrow> nat \<Rightarrow> nat \<Rightarrow> string \<Rightarrow> bool" where
  "utf8_rest n lo hi [] \<longleftrightarrow> n = 0"
| "utf8_rest n lo hi (c # cs) =
     (let b = of_char c
      in if n \<noteq> 0 then lo \<le> b \<and> b \<le> hi \<and> utf8_rest (n - 1) 0x80 0xBF cs
         else if b < 0x80 then utf8_rest 0 0x80 0xBF cs
         else if b < 0xC2 then False
         else if b < 0xE0 then utf8_rest 1 0x80 0xBF cs
         else if b = 0xE0 then utf8_rest 2 0xA0 0xBF cs
         else if b = 0xED then utf8_rest 2 0x80 0x9F cs
         else if b < 0xF0 then utf8_rest 2 0x80 0xBF cs
         else if b = 0xF0 then utf8_rest 3 0x90 0xBF cs
         else if b < 0xF4 then utf8_rest 3 0x80 0xBF cs
         else if b = 0xF4 then utf8_rest 3 0x80 0x8F cs
         else False)"

definition utf8 :: "string \<Rightarrow> bool" where
  "utf8 s = utf8_rest 0 0x80 0xBF s"

fun json_utf8 :: "json \<Rightarrow> bool" where
  "json_utf8 JNull = True"
| "json_utf8 (JText t) = utf8 t"
| "json_utf8 (JNumber n) = True"
| "json_utf8 (JObject kvs) = (\<forall>kv\<in>set kvs. utf8 (fst kv) \<and> json_utf8 (snd kv))"

definition strict_dump :: "(json \<Rightarrow> string option) \<Rightarrow> bool" where
  "strict_dump dump \<longleftrightarrow> (\<forall>j. dump j = None \<longleftrightarrow> \<not> json_utf8 j)"

lemma utf8_ascii: "list_all (\<lambda>c. of_char c < (0x80 :: nat)) s \<Longrightarrow> utf8 s"
  unfolding utf8_def by (induction s) (simp_all add: Let_def)

lemma json_utf8_set: "json_utf8 j \<Longrightarrow> utf8 k \<Longrightarrow> json_utf8 v \<Longrightarrow> json_utf8 (json_set k v j)"
proof -
  have "json_utf8 (JObject (put k v kvs))" if "json_utf8 (JObject kvs)" "utf8 k" "json_utf8 v" for kvs
    using that by (induction k v kvs rule: put.induct) auto
  then show "json_utf8 j \<Longrightarrow> utf8 k \<Longrightarrow> json_utf8 v \<Longrightarrow> json_utf8 (json_set k v j)"
    by (cases j) (auto simp: json_set_def simp del: json_utf8.simps(4), simp_all)
qed

lemma json_utf8_get: "json_utf8 j \<Longrightarrow> json_utf8 (json_get k j)"
  by (cases j) (auto simp: json_get_def split: option.split dest!: map_of_SomeD)

section \<open>Replies\<close>

definition line_json :: "TrafficLine \<Rightarrow> json" where
  "line_json l =
     json_set ''pktTxCount'' (JNumber (sint (pktTxCount l)))
       (json_set ''pktRxCount'' (JNumber (sint (pktRxCount l)))
         (json_set ''bytesTx'' (JNumber (uint (bytesTx l)))
           (json_set ''bytesRx'' (JNumber (uint (bytesRx l))) (JObject []))))"

fun data_loop :: "(string \<times> TrafficLine) list \<Rightarrow> json \<Rightarrow> json" where
  "data_loop [] payload = payload"
| "data_loop ((name, line) # traffic) payload =
     data_loop traffic (json_set ''data'' (json_set name (line_json line) (json_get ''data'' payload)) payload)"

definition trafficToJson :: "(string \<times> TrafficLine) list \<Rightarrow> json" where
  "trafficToJson traffic = data_loop traffic (json_set ''length'' (JNumber (int (length traffic))) JNull)"

definition error_json :: "string \<Rightarrow> json" where
  "error_json msg = json_set ''errmsg'' (JText msg) (json_set ''result'' (JText ''error'') JNull)"

definition success_json :: "json \<Rightarrow> json" where
  "success_json payload = json_set ''result'' (JText ''success'') payload"

section \<open>Requests\<close>

text \<open>
  What the handlers read: the storage's snapshot, the start of the day, and the database.
\<close>

record api_env =
  api_snapshot :: "(string \<times> TrafficLine) list \<times> i32"
  api_day_start :: i64
  api_since :: "i64 \<Rightarrow> (string \<times> TrafficLine) list"
  api_between :: "i64 \<Rightarrow> i64 \<Rightarrow> (string \<times> TrafficLine) list"

text \<open>A stream is started, or one reply is sent and the connection closed.\<close>

datatype response = Start_live_text | Start_live | Reply json

definition snapshot :: "api_env \<Rightarrow> json" where
  "snapshot env = success_json (json_set ''interval'' (JNumber (sint (snd (api_snapshot env)))) (trafficToJson (fst (api_snapshot env))))"

definition trafficDaily :: "api_env \<Rightarrow> json" where
  "trafficDaily env = success_json (trafficToJson (api_since env (api_day_start env)))"

definition trafficSince :: "api_env \<Rightarrow> i64 \<Rightarrow> json" where
  "trafficSince env ts = success_json (trafficToJson (api_since env ts))"

definition trafficBetween :: "api_env \<Rightarrow> i64 \<Rightarrow> i64 \<Rightarrow> json" where
  "trafficBetween env start end = success_json (trafficToJson (api_between env start end))"

text \<open>The command of a request; \<open>int\<close> becomes \<open>time_t\<close> by sign extension.\<close>

definition handle_command :: "api_env \<Rightarrow> string \<Rightarrow> string list \<Rightarrow> response" where
  "handle_command env cmd request =
     (if cmd = ''live-text'' then Start_live_text
      else if cmd = ''live'' then Start_live
      else if cmd = ''snapshot'' then Reply (snapshot env)
      else if cmd = ''traffic-daily'' then Reply (trafficDaily env)
      else if cmd = ''traffic-since'' then
        (if length request \<ge> 2 then
           (case stoi (request ! 1) of
              Inl InvalidArgument \<Rightarrow> Reply (error_json ''Invalid timestamp parameter for traffic-since.'')
            | Inl OutOfRange \<Rightarrow> Reply (error_json ''Timestamp parameter value too large for traffic-since.'')
            | Inr ts \<Rightarrow> Reply (trafficSince env (scast ts)))
         else Reply (error_json ''Missing timestamp parameter for traffic-since.''))
      else if cmd = ''traffic-between'' then
        (if length request \<ge> 3 then
           (case stoi (request ! 1) of
              Inl InvalidArgument \<Rightarrow> Reply (error_json ''Invalid timestamp parameter(s) for traffic-between.'')
            | Inl OutOfRange \<Rightarrow> Reply (error_json ''Timestamp parameter value(s) too large for traffic-between.'')
            | Inr start \<Rightarrow>
                (case stoi (request ! 2) of
                   Inl InvalidArgument \<Rightarrow> Reply (error_json ''Invalid timestamp parameter(s) for traffic-between.'')
                 | Inl OutOfRange \<Rightarrow> Reply (error_json ''Timestamp parameter value(s) too large for traffic-between.'')
                 | Inr end \<Rightarrow> Reply (trafficBetween env (scast start) (scast end))))
         else Reply (error_json ''Missing timestamp parameter(s) for traffic-between.''))
      else Reply (error_json ''Unknown command.''))"

text \<open>
  One turn of the server's loop, on the bytes \<open>read\<close> delivered (\<open>None\<close> when it failed): the terminating
  zero is written behind them into a buffer of 1024 bytes, and the request ends at the first zero.
  The first word is taken without looking whether there is one, and trimmed without looking whether it is empty.
\<close>

definition handle_request :: "api_env \<Rightarrow> string option \<Rightarrow> abort + response" where
  "handle_request env received =
     (case received of
        None \<Rightarrow> Inl Undefined
      | Some bytes \<Rightarrow>
          if length bytes \<ge> 1024 then Inl Undefined
          else
            let request = split (takeWhile (\<lambda>c. c \<noteq> CHR 0x00) bytes) (CHR '' '')
            in if request = [] then Inl Undefined
               else (case trim (hd request) of Inl a \<Rightarrow> Inl a | Inr cmd \<Rightarrow> Inr (handle_command env cmd request)))"

text \<open>
  What \<open>live\<close> sends for a message of its stream; no value when the interval was never written.
\<close>

definition live_payload :: "(TrafficMap \<Rightarrow> (string \<times> TrafficLine) list) \<Rightarrow> message \<Rightarrow> json option" where
  "live_payload iterate m =
     (case m of
        Refused \<Rightarrow> Some (error_json ''Only one live API stream at a time is currently supported.'')
      | Update traffic None \<Rightarrow> None
      | Update traffic (Some interval) \<Rightarrow>
          Some (success_json (json_set ''interval'' (JNumber (sint interval)) (trafficToJson (iterate traffic)))))"

section \<open>Objects\<close>

text \<open>
  The contract of a keyed store that is kept in a normal form: writing a key is a map update and keeps
  the form, and two stores in normal form with the same entries are equal. Hence the order in which
  different keys are written does not matter.
\<close>

locale canonical_store =
  fixes store :: "'k \<Rightarrow> 'v \<Rightarrow> 's \<Rightarrow> 's" and entries :: "'s \<Rightarrow> 'k \<rightharpoonup> 'v" and normal :: "'s \<Rightarrow> bool"
  assumes entries_write: "normal s \<Longrightarrow> entries (store k v s) = (entries s)(k \<mapsto> v)"
    and normal_write: "normal s \<Longrightarrow> normal (store k v s)"
    and canonical: "normal s \<Longrightarrow> normal t \<Longrightarrow> entries s = entries t \<Longrightarrow> s = t"
begin

lemma write_all:
  assumes "normal s"
  shows "normal (fold (\<lambda>(k, v). store k v) kvs s) \<and>
    entries (fold (\<lambda>(k, v). store k v) kvs s) = entries s ++ map_of (rev kvs)"
  using assms by (induction kvs arbitrary: s) (auto simp: normal_write entries_write)

lemma order_irrelevant:
  assumes "normal s" "distinct (map fst kvs)" "distinct (map fst kvs')" "set kvs = set kvs'"
  shows "fold (\<lambda>(k, v). store k v) kvs s = fold (\<lambda>(k, v). store k v) kvs' s"
proof (rule canonical)
  have "map_of (rev kvs) = map_of (rev kvs')"
    using assms(2-4) by (intro map_of_inject_set [THEN iffD2]) (simp_all add: rev_map [symmetric])
  then show "entries (fold (\<lambda>(k, v). store k v) kvs s) = entries (fold (\<lambda>(k, v). store k v) kvs' s)"
    using write_all [OF assms(1)] by simp
qed (use write_all [OF assms(1)] in simp_all)

end

definition sorted_keys :: "(string \<times> json) list \<Rightarrow> bool" where
  "sorted_keys kvs = sorted_wrt (<) (map fst kvs)"

lemma set_put: "fst ` set (put k v kvs) = insert k (fst ` set kvs)"
  by (induction k v kvs rule: put.induct) auto

lemma sorted_put: "sorted_keys kvs \<Longrightarrow> sorted_keys (put k v kvs)"
proof (induction k v kvs rule: put.induct)
  case (2 k v k' v' kvs)
  have "\<forall>x\<in>fst ` set (put k v kvs). k' < x" if "\<not> k < k'" "k \<noteq> k'"
    using 2(2) that by (auto simp: set_put sorted_keys_def)
  with 2 show ?case by (auto simp: sorted_keys_def)
qed (simp add: sorted_keys_def)

lemma map_of_put: "sorted_keys kvs \<Longrightarrow> map_of (put k v kvs) = (map_of kvs)(k \<mapsto> v)"
proof (induction k v kvs rule: put.induct)
  case (2 k v k' v' kvs)
  then have "sorted_keys kvs" by (simp add: sorted_keys_def)
  with 2 show ?case by (auto simp: fun_eq_iff)
qed simp

lemma sorted_keys_unique:
  assumes "sorted_keys s" "sorted_keys t" "map_of s = map_of t"
  shows "s = t"
proof -
  have d: "distinct (map fst s)" "distinct (map fst t)" "sorted (map fst s)" "sorted (map fst t)"
    using assms(1,2) by (simp_all add: sorted_keys_def strict_sorted_iff)
  then have "set s = set t" using assms(3) by (simp add: map_of_inject_set)
  moreover have "inj_on fst (set s)" using d(1) by (simp add: distinct_map)
  ultimately show ?thesis
    using d by (intro map_sorted_distinct_set_unique [of fst]) simp_all
qed

interpretation object: canonical_store put map_of sorted_keys
  by unfold_locales (auto intro: sorted_put sorted_keys_unique simp: map_of_put)

lemma sorted_keys_Nil [simp]: "sorted_keys []"
  by (simp add: sorted_keys_def)

section \<open>Traffic as JSON\<close>

definition data_object :: "(string \<times> TrafficLine) list \<Rightarrow> (string \<times> json) list" where
  "data_object traffic = fold (\<lambda>(k, v). put k v) (map (\<lambda>(n, l). (n, line_json l)) traffic) []"

lemma key_order [simp]: "''data'' < ''length''" "\<not> ''length'' < ''data''"
  by (simp_all add: less_char_def)

lemma data_loop_eq:
  "data_loop traffic (JObject [(''data'', JObject kvs), (''length'', n)]) =
   JObject [(''data'', JObject (fold (\<lambda>(k, v). put k v) (map (\<lambda>(n, l). (n, line_json l)) traffic) kvs)), (''length'', n)]"
  by (induction traffic arbitrary: kvs) (auto simp: json_set_def json_get_def)

lemma trafficToJson_eq:
  "trafficToJson traffic = JObject ((if traffic = [] then [] else [(''data'', JObject (data_object traffic))]) @
     [(''length'', JNumber (int (length traffic)))])"
proof (cases traffic)
  case (Cons x rest)
  obtain n l where "x = (n, l)" by fastforce
  with Cons show ?thesis
    by (simp add: trafficToJson_def data_object_def json_set_def json_get_def data_loop_eq)
qed (simp add: trafficToJson_def json_set_def)

lemma map_of_data_object:
  assumes "distinct (map fst traffic)"
  shows "map_of (data_object traffic) name = map_option line_json (map_of traffic name)"
proof -
  have "map_of (data_object traffic) = map_of (rev (map (\<lambda>(n, l). (n, line_json l)) traffic))"
    using object.write_all [of "[]"] by (simp add: data_object_def)
  also have "\<dots> = map_of (map (\<lambda>(n, l). (n, line_json l)) traffic)"
    using assms by (intro map_of_inject_set [THEN iffD2]) (simp_all add: rev_map [symmetric] comp_def case_prod_beta)
  finally show ?thesis by (simp add: map_of_map)
qed

text \<open>
  C33. The reply to a traffic query does not depend on the order of the hash map: it says how many
  applications there are and, when there are any, has for each the line of the map and no other entry.
\<close>

theorem trafficToJson_canonical:
  assumes "distinct (map fst traffic)" "distinct (map fst traffic')" "set traffic = set traffic'"
  shows "trafficToJson traffic = trafficToJson traffic' \<and>
    json_get ''length'' (trafficToJson traffic) = JNumber (int (length traffic)) \<and>
    has_key ''data'' (trafficToJson traffic) = (traffic \<noteq> []) \<and>
    (traffic = [] \<or> (\<exists>kvs. json_get ''data'' (trafficToJson traffic) = JObject kvs \<and>
       map_of kvs name = map_option line_json (map_of traffic name)))"
proof -
  let ?f = "\<lambda>(n, l). (n, line_json l)"
  have keys: "map fst (map ?f t) = map fst t" for t by (simp add: comp_def case_prod_beta)
  have "data_object traffic = data_object traffic'"
    unfolding data_object_def
    by (rule object.order_irrelevant) (simp_all only: keys assms sorted_keys_Nil set_map)
  moreover have "length traffic = length traffic'"
    using assms by (metis distinct_card distinct_map)
  moreover have "traffic = [] \<longleftrightarrow> traffic' = []" using assms(3) by auto
  ultimately have "trafficToJson traffic = trafficToJson traffic'" by (simp add: trafficToJson_eq)
  moreover have "json_get ''length'' (trafficToJson traffic) = JNumber (int (length traffic)) \<and>
      has_key ''data'' (trafficToJson traffic) = (traffic \<noteq> []) \<and>
      (traffic = [] \<or> (\<exists>kvs. json_get ''data'' (trafficToJson traffic) = JObject kvs \<and>
         map_of kvs name = map_option line_json (map_of traffic name)))"
    using map_of_data_object [OF assms(1), of name]
    by (auto simp: trafficToJson_eq json_get_def has_key_def)
  ultimately show ?thesis by (rule conjI)
qed

theorem trafficToJson_canonical_witness:
  "trafficToJson [(''a'', 0), (''b'', TrafficLine_init\<lparr>bytesRx := 5\<rparr>)] =
   trafficToJson [(''b'', TrafficLine_init\<lparr>bytesRx := 5\<rparr>), (''a'', 0)]"
  using trafficToJson_canonical [of "[(''a'', 0), (''b'', TrafficLine_init\<lparr>bytesRx := 5\<rparr>)]"
      "[(''b'', TrafficLine_init\<lparr>bytesRx := 5\<rparr>), (''a'', 0)]"]
  by auto

section \<open>Answers\<close>

definition reply_ok :: "json \<Rightarrow> bool" where
  "reply_ok j \<longleftrightarrow>
     (json_get ''result'' j = JText ''success'' \<and> \<not> has_key ''errmsg'' j \<and> has_key ''length'' j) \<or>
     (json_get ''result'' j = JText ''error'' \<and> has_key ''errmsg'' j \<and> \<not> has_key ''data'' j)"

definition response_ok :: "response \<Rightarrow> bool" where
  "response_ok r = (case r of Reply j \<Rightarrow> reply_ok j | _ \<Rightarrow> True)"

lemma key_orders [simp]: "''errmsg'' < ''result''" "''length'' < ''result''" "''data'' < ''result''"
  "\<not> ''result'' < ''errmsg''" "\<not> ''result'' < ''length''" "\<not> ''result'' < ''data''"
  "''interval'' < ''length''" "\<not> ''interval'' < ''data''" "\<not> ''result'' < ''interval''"
  by (simp_all add: less_char_def)

lemma reply_ok_error: "reply_ok (error_json msg)"
  by (simp add: reply_ok_def error_json_def json_set_def json_get_def has_key_def)

lemma reply_ok_success: "reply_ok (success_json (trafficToJson traffic))"
  by (simp add: reply_ok_def success_json_def trafficToJson_eq json_set_def json_get_def has_key_def)

lemma reply_ok_snapshot: "reply_ok (snapshot env)"
  by (simp add: snapshot_def reply_ok_def success_json_def trafficToJson_eq json_set_def json_get_def has_key_def)

text \<open>A reply can be printed when the names of its applications are valid UTF-8.\<close>

lemma utf8_keys [simp]: "utf8 ''length''" "utf8 ''data''" "utf8 ''interval''" "utf8 ''result''" "utf8 ''errmsg''"
  "utf8 ''success''" "utf8 ''error''" "utf8 ''bytesRx''" "utf8 ''bytesTx''" "utf8 ''pktRxCount''" "utf8 ''pktTxCount''"
  by (rule utf8_ascii, simp)+

lemma json_utf8_data_loop:
  "json_utf8 payload \<Longrightarrow> \<forall>x\<in>set traffic. utf8 (fst x) \<Longrightarrow> json_utf8 (data_loop traffic payload)"
proof (induction traffic payload rule: data_loop.induct)
  case (2 name line traffic payload)
  have "json_utf8 (line_json line)" by (simp add: line_json_def json_utf8_set)
  with 2 show ?case by (simp add: json_utf8_set json_utf8_get)
qed simp

lemma json_utf8_traffic: "\<forall>x\<in>set traffic. utf8 (fst x) \<Longrightarrow> json_utf8 (success_json (trafficToJson traffic))"
  by (simp add: trafficToJson_def success_json_def json_utf8_set json_utf8_data_loop)

lemma json_utf8_interval:
  "\<forall>x\<in>set traffic. utf8 (fst x) \<Longrightarrow> json_utf8 (success_json (json_set ''interval'' (JNumber n) (trafficToJson traffic)))"
  by (simp add: trafficToJson_def success_json_def json_utf8_set json_utf8_data_loop)

lemma json_utf8_error: "list_all (\<lambda>c. of_char c < (0x80 :: nat)) msg \<Longrightarrow> json_utf8 (error_json msg)"
  by (simp add: error_json_def json_utf8_set utf8_ascii)

text \<open>Only a reply with traffic can be impossible to print.\<close>

definition env_utf8 :: "api_env \<Rightarrow> bool" where
  "env_utf8 env \<longleftrightarrow> (\<forall>x\<in>set (fst (api_snapshot env)). utf8 (fst x)) \<and>
     (\<forall>t. \<forall>x\<in>set (api_since env t). utf8 (fst x)) \<and> (\<forall>t u. \<forall>x\<in>set (api_between env t u). utf8 (fst x))"

lemma reply_utf8:
  assumes "env_utf8 env" "handle_request env received = Inr (Reply j)"
  shows "json_utf8 j"
proof -
  have ok: "json_utf8 (snapshot env)" "json_utf8 (trafficDaily env)" "json_utf8 (trafficSince env t)"
    "json_utf8 (trafficBetween env t u)" for t u
    using assms(1) by (simp_all add: env_utf8_def snapshot_def trafficDaily_def trafficSince_def trafficBetween_def
        json_utf8_traffic json_utf8_interval)
  have err: "json_utf8 (error_json ''Unknown command.'')"
    "json_utf8 (error_json ''Invalid timestamp parameter for traffic-since.'')"
    "json_utf8 (error_json ''Timestamp parameter value too large for traffic-since.'')"
    "json_utf8 (error_json ''Missing timestamp parameter for traffic-since.'')"
    "json_utf8 (error_json ''Invalid timestamp parameter(s) for traffic-between.'')"
    "json_utf8 (error_json ''Timestamp parameter value(s) too large for traffic-between.'')"
    "json_utf8 (error_json ''Missing timestamp parameter(s) for traffic-between.'')"
    by (rule json_utf8_error, simp)+
  from assms(2) obtain cmd request where "handle_command env cmd request = Reply j"
    by (auto simp: handle_request_def Let_def split: option.splits if_splits sum.splits)
  with ok err show ?thesis
    by (auto simp: handle_command_def split: if_splits sum.splits cxx_exn.splits)
qed

text \<open>Whatever the interleaving, every message of a live stream has its payload, of the form of a reply.\<close>

lemma live_payload_ok:
  assumes "live_run (live_init interval) es s" "(a, m) \<in> set (messages s)"
  shows "\<exists>j. live_payload iterate m = Some j \<and> reply_ok j"
proof (cases m)
  case Refused
  then show ?thesis by (simp add: live_payload_def reply_ok_error)
next
  case (Update traffic i)
  with live_ok_reachable [OF assms(1)] assms(2) have "i = Some (mInterval (storage s))"
    by (fastforce simp: live_ok_def message_ok_def)
  with Update reply_ok_snapshot [of "\<lparr>api_snapshot = (iterate traffic, mInterval (storage s)),
      api_day_start = 0, api_since = (\<lambda>_. []), api_between = (\<lambda>_ _. [])\<rparr>"]
  show ?thesis by (simp add: live_payload_def snapshot_def)
qed

lemma response_ok_command: "response_ok (handle_command env cmd request)"
  by (simp add: handle_command_def response_ok_def reply_ok_error reply_ok_snapshot reply_ok_success trafficDaily_def
      trafficSince_def trafficBetween_def split: sum.split cxx_exn.split)

text \<open>
  Every request of 1 to 1023 bytes that does not begin with a zero byte or a space is answered: a stream is
  started or a reply is sent, which is a success with a count or an error with a message. A space at the
  beginning makes the first word empty, which \<open>trim\<close> must not be given.
\<close>

lemma request_answered:
  "case handle_request env received of
     Inl a \<Rightarrow> a = Undefined \<and>
       (case received of None \<Rightarrow> True | Some bytes \<Rightarrow> 1024 \<le> length bytes \<or> bytes = [] \<or> hd bytes \<in> {CHR 0x00, CHR '' ''})
   | Inr r \<Rightarrow> response_ok r \<and>
       (case received of None \<Rightarrow> False | Some bytes \<Rightarrow> length bytes \<in> {1..1023} \<and> hd bytes \<notin> {CHR 0x00, CHR '' ''})"
proof (cases received)
  case (Some bytes)
  let ?text = "takeWhile (\<lambda>c. c \<noteq> CHR 0x00) bytes"
  have "?text = [] \<longleftrightarrow> bytes = [] \<or> hd bytes = CHR 0x00" by (cases bytes) auto
  moreover have "?text \<noteq> [] \<Longrightarrow> hd ?text = hd bytes" by (cases bytes) auto
  ultimately show ?thesis
    using Some hd_split_empty [of ?text "CHR '' ''"]
    by (cases bytes) (auto simp: handle_request_def Let_def trim_correct split_empty_iff response_ok_command)
qed (simp add: handle_request_def)

section \<open>Timestamps\<close>

lemma length_timestamp: "length (to_string (sint (ts :: i32))) \<le> 11"
proof -
  have "- (2 ^ 31) \<le> sint ts" "sint ts < 2 ^ 31"
    using sint_greater_eq [of ts] sint_less [of ts] by simp_all
  then have "nat (- sint ts) < 10 ^ Suc 9" "nat (sint ts) < 10 ^ Suc 9" by simp_all
  from this [THEN length_show_nat] show ?thesis by (simp add: to_string_def)
qed

lemma timestamp_chars:
  "CHR '' '' \<notin> set (to_string i)" "CHR 0x00 \<notin> set (to_string i)" "CHR 0x0A \<notin> set (to_string i)" "to_string i \<noteq> []"
proof -
  have "\<forall>c\<in>set (to_string i). isdigit c \<or> c = CHR ''-''" "to_string i \<noteq> []"
    using set_show_nat [of "nat (- i)"] set_show_nat [of "nat i"] by (simp_all add: to_string_def)
  then show "CHR '' '' \<notin> set (to_string i)" "CHR 0x00 \<notin> set (to_string i)" "CHR 0x0A \<notin> set (to_string i)" "to_string i \<noteq> []"
    by (auto simp: isdigit_def)
qed

lemma trim_words: "trim ''traffic-since'' = Inr ''traffic-since''" "trim ''traffic-between'' = Inr ''traffic-between''"
  by (simp_all add: trim_correct stripped_def strip_back_def isspace_def)

lemma stoi_timestamp:
  "stoi (to_string (sint (ts :: i32)) @ [CHR 0x0A]) = Inr ts" "stoi (to_string (sint ts)) = Inr ts"
  by (simp_all add: stoi_to_string isdigit_def)

lemma request_since:
  "handle_request env (Some (''traffic-since '' @ to_string (sint (ts :: i32)) @ [CHR 0x0A])) =
     Inr (Reply (success_json (trafficToJson (api_since env (scast ts)))))"
proof -
  let ?t = "to_string (sint ts)"
  have s1: "split (''traffic-since'' @ CHR '' '' # ?t @ [CHR 0x0A]) (CHR '' '') = [''traffic-since'', ?t @ [CHR 0x0A]]"
    using split_no_delimiter [of "CHR '' ''" "?t @ [CHR 0x0A]"] timestamp_chars
    by (subst split_Cons_word) simp_all
  have z: "takeWhile (\<lambda>c. c \<noteq> CHR 0x00) (''traffic-since'' @ CHR '' '' # ?t @ [CHR 0x0A]) =
      ''traffic-since'' @ CHR '' '' # ?t @ [CHR 0x0A]"
    by (rule takeWhile_no_zero, simp add: timestamp_chars)
  have "handle_request env (Some (''traffic-since'' @ CHR '' '' # ?t @ [CHR 0x0A])) =
      Inr (handle_command env ''traffic-since'' [''traffic-since'', ?t @ [CHR 0x0A]])"
    unfolding handle_request_def option.case z s1 using length_timestamp [of ts] by (simp add: trim_words)
  then show ?thesis by (simp add: handle_command_def stoi_timestamp trafficSince_def)
qed

lemma request_between:
  "handle_request env (Some (''traffic-between '' @ to_string (sint (ts :: i32)) @ '' '' @ to_string (sint (ts' :: i32)) @ [CHR 0x0A])) =
     Inr (Reply (success_json (trafficToJson (api_between env (scast ts) (scast ts')))))"
proof -
  let ?t = "to_string (sint ts)" and ?t' = "to_string (sint ts')"
  have s2: "split (''traffic-between'' @ CHR '' '' # ?t @ CHR '' '' # ?t' @ [CHR 0x0A]) (CHR '' '') =
      [''traffic-between'', ?t, ?t' @ [CHR 0x0A]]"
    using split_no_delimiter [of "CHR '' ''" "?t' @ [CHR 0x0A]"] timestamp_chars
    by (subst split_Cons_word, simp, subst split_Cons_word) simp_all
  have z: "takeWhile (\<lambda>c. c \<noteq> CHR 0x00) (''traffic-between'' @ CHR '' '' # ?t @ CHR '' '' # ?t' @ [CHR 0x0A]) =
      ''traffic-between'' @ CHR '' '' # ?t @ CHR '' '' # ?t' @ [CHR 0x0A]"
    by (rule takeWhile_no_zero, simp add: timestamp_chars)
  have "handle_request env (Some (''traffic-between'' @ CHR '' '' # ?t @ CHR '' '' # ?t' @ [CHR 0x0A])) =
      Inr (handle_command env ''traffic-between'' [''traffic-between'', ?t, ?t' @ [CHR 0x0A]])"
    unfolding handle_request_def option.case z s2 using length_timestamp [of ts] length_timestamp [of ts']
    by (simp add: trim_words)
  then show ?thesis by (simp add: handle_command_def stoi_timestamp trafficBetween_def)
qed

text \<open>
  C34. A query with timestamps, sent as a line of text, is answered with the traffic of exactly these
  timestamps, for every 32 bit value.
\<close>

theorem timestamp_queries:
  "handle_request env (Some (''traffic-since '' @ to_string (sint (ts :: i32)) @ [CHR 0x0A])) =
     Inr (Reply (success_json (trafficToJson (api_since env (scast ts))))) \<and>
   handle_request env (Some (''traffic-between '' @ to_string (sint ts) @ '' '' @ to_string (sint (ts' :: i32)) @ [CHR 0x0A])) =
     Inr (Reply (success_json (trafficToJson (api_between env (scast ts) (scast ts')))))"
  by (rule conjI [OF request_since request_between])

text \<open>What a client reads in the reply to a traffic query.\<close>

lemma success_reply:
  assumes "distinct (map fst traffic)"
  shows "json_get ''result'' (success_json (trafficToJson traffic)) = JText ''success''"
    and "json_get ''length'' (success_json (trafficToJson traffic)) = JNumber (int (length traffic))"
    and "json_get name (json_get ''data'' (success_json (trafficToJson traffic))) =
      (case map_of traffic name of None \<Rightarrow> JNull | Some line \<Rightarrow> line_json line)"
  using map_of_data_object [OF assms, of name]
  by (auto simp: success_json_def trafficToJson_eq json_set_def json_get_def split: option.split)

text \<open>A command without parameters, as a line of text.\<close>

lemma request_word:
  assumes "cmd \<noteq> []" "list_all (\<lambda>c. \<not> isspace c \<and> c \<noteq> CHR 0x00) cmd" "length cmd < 1023"
  shows "handle_request env (Some (cmd @ [CHR 0x0A])) = Inr (handle_command env cmd [cmd @ [CHR 0x0A]])"
proof -
  have chars: "\<forall>c\<in>set cmd. \<not> isspace c" "\<forall>c\<in>set cmd. c \<noteq> CHR 0x00" using assms(2) by (auto simp: list_all_iff)
  have space: "isspace (CHR '' '')" "isspace (CHR 0x0A)" by (simp_all add: isspace_def)
  with chars(1) have "CHR '' '' \<notin> set (cmd @ [CHR 0x0A])" by auto
  then have words: "split (cmd @ [CHR 0x0A]) (CHR '' '') = [cmd @ [CHR 0x0A]]" by (rule split_no_delimiter) simp
  have "dropWhile isspace (cmd @ [CHR 0x0A]) = cmd @ [CHR 0x0A]" using assms(1) chars(1) by (cases cmd) auto
  moreover have "dropWhile isspace (rev cmd) = rev cmd"
    using assms(1) chars(1) by (simp add: dropWhile_eq_self_iff hd_rev)
  ultimately have "trim (cmd @ [CHR 0x0A]) = Inr cmd" using space(2) by (simp add: trim_correct stripped_def strip_back_def)
  moreover have "takeWhile (\<lambda>c. c \<noteq> CHR 0x00) (cmd @ [CHR 0x0A]) = cmd @ [CHR 0x0A]" using chars(2) by simp
  ultimately show ?thesis using assms(3) words by (simp add: handle_request_def)
qed

lemma request_snapshot: "handle_request env (Some (''snapshot'' @ [CHR 0x0A])) = Inr (Reply (snapshot env))"
  by (subst request_word) (simp_all add: isspace_def handle_command_def)

lemma request_live: "handle_request env (Some (''live'' @ [CHR 0x0A])) = Inr Start_live"
  by (subst request_word) (simp_all add: isspace_def handle_command_def)

lemma request_live_text: "handle_request env (Some (''live-text'' @ [CHR 0x0A])) = Inr Start_live_text"
  by (subst request_word) (simp_all add: isspace_def handle_command_def)

lemma snapshot_reply:
  assumes "distinct (map fst (fst (api_snapshot env)))"
  shows "json_get ''result'' (snapshot env) = JText ''success''"
    and "json_get name (json_get ''data'' (snapshot env)) =
      (case map_of (fst (api_snapshot env)) name of None \<Rightarrow> JNull | Some line \<Rightarrow> line_json line)"
  using map_of_data_object [OF assms, of name]
  by (auto simp: snapshot_def success_json_def trafficToJson_eq json_set_def json_get_def split: option.split)

end
