(* ===== verification/Human_Readable.thy ===== *)
theory Human_Readable
  imports Complex_Main Cxx_Std
begin

text \<open>
  \<open>src/src/util/HumanReadable.cpp\<close>: byte counts and rates as text. The code computes with \<open>double\<close>:
  a value is a rational number here, rounded after each operation to 53 bits, to nearest and ties to
  even, or one of the special values a division by zero has. The numbers that occur are 0 or lie
  between \<open>1 / 2 ^ 32\<close> and \<open>2 ^ 64\<close>, so that neither overflow nor the subnormal numbers play a part.
\<close>

section \<open>Binary floating point\<close>

datatype double = NaN | Infinity | Finite rat

definition half_even :: "rat \<Rightarrow> int" where
  "half_even x =
     (let n = floor x; d = x - of_int n
      in if d < 1 / 2 \<or> (d = 1 / 2 \<and> even n) then n else n + 1)"

function round53 :: "rat \<Rightarrow> rat" where
  "round53 x =
     (if x \<le> 0 then 0
      else if x < 2 ^ 52 then round53 (2 * x) / 2
      else if x < 2 ^ 53 then of_int (half_even x)
      else 2 * round53 (x / 2))"
  by pat_completeness auto

lemma ceiling_half:
  assumes "1 < (y :: rat)"
  shows "ceiling (y / 2) < ceiling y"
proof -
  have "y / 2 \<le> of_int (ceiling y - 1)"
  proof -
    have "2 \<le> ceiling y" using assms by (simp add: less_ceiling_iff le_ceiling_iff)
    then have "(of_int 2 :: rat) \<le> of_int (ceiling y)" by (simp only: of_int_le_iff)
    then have "(2 :: rat) \<le> of_int (ceiling y)" by simp
    then have "y + 2 \<le> 2 * of_int (ceiling y)" using le_of_int_ceiling [of y] by linarith
    then show ?thesis by simp
  qed
  then have "ceiling (y / 2) \<le> ceiling y - 1" by (simp only: ceiling_le_iff)
  then show ?thesis by simp
qed

text \<open>How far a number is from the binade of the integers with 53 bits.\<close>

definition binade_distance :: "rat \<Rightarrow> nat" where
  "binade_distance x =
     (if x \<le> 0 \<or> (2 ^ 52 \<le> x \<and> x < 2 ^ 53) then 0
      else if x < 2 ^ 52 then nat (ceiling (2 ^ 52 / x)) else nat (ceiling (x / 2 ^ 52)))"

lemma binade_distance_double: "0 < x \<Longrightarrow> x < 2 ^ 52 \<Longrightarrow> binade_distance (2 * x) < binade_distance x"
  using ceiling_half [of "2 ^ 52 / x"] by (auto simp: binade_distance_def field_simps zless_nat_conj)

lemma binade_distance_halve: "2 ^ 53 \<le> x \<Longrightarrow> binade_distance (x / 2) < binade_distance x"
  using ceiling_half [of "x / 2 ^ 52"] by (auto simp: binade_distance_def field_simps)

termination round53
  by (relation "measure binade_distance") (auto intro: binade_distance_double binade_distance_halve)

declare round53.simps [simp del]

definition double_of_u64 :: "u64 \<Rightarrow> double" where
  "double_of_u64 n = Finite (round53 (of_nat (unat n)))"

text \<open>Division by a number of at most 53 bits, and the comparison, which is false for \<open>NaN\<close>.\<close>

definition divide_double :: "double \<Rightarrow> rat \<Rightarrow> double" where
  "divide_double x y =
     (case x of
        NaN \<Rightarrow> NaN
      | Infinity \<Rightarrow> Infinity
      | Finite v \<Rightarrow> if y = 0 then (if v = 0 then NaN else Infinity) else Finite (round53 (v / y)))"

definition greater_double :: "double \<Rightarrow> rat \<Rightarrow> bool" where
  "greater_double x y = (case x of NaN \<Rightarrow> False | Infinity \<Rightarrow> True | Finite v \<Rightarrow> y < v)"

section \<open>Text\<close>

text \<open>
  \<open>%.*f\<close>: the exact value, rounded to the digits asked for. On x86-64 the result of \<open>0.0 / 0\<close> has its
  sign bit set.
\<close>

definition pad_digits :: "nat \<Rightarrow> nat \<Rightarrow> string" where
  "pad_digits w n = (let ds = show_nat n in replicate (w - length ds) CHR ''0'' @ ds)"

definition print_fixed :: "nat \<Rightarrow> rat \<Rightarrow> string" where
  "print_fixed prec v =
     (let n = nat (half_even (v * 10 ^ prec))
      in if prec = 0 then show_nat n else show_nat (n div 10 ^ prec) @ CHR ''.'' # pad_digits prec (n mod 10 ^ prec))"

definition print_double :: "nat \<Rightarrow> double \<Rightarrow> string" where
  "print_double prec x = (case x of NaN \<Rightarrow> ''-nan'' | Infinity \<Rightarrow> ''inf'' | Finite v \<Rightarrow> print_fixed prec v)"

definition units :: "string list" where
  "units = [''B'', ''KB'', ''MB'', ''GB'', ''TB'', ''PB'']"

text \<open>The loop of both functions; it does not return when the value stays above 1000.\<close>

partial_function (option) scale_down :: "double \<Rightarrow> nat \<Rightarrow> (double \<times> nat) option" where
  "scale_down b i = (if greater_double b 1000 then scale_down (divide_double b 1000) (i + 1) else Some (b, i))"

text \<open>\<open>sprintf\<close> into the 16 bytes of \<open>str\<close>, the terminating zero included.\<close>

definition sprintf_16 :: "string \<Rightarrow> abort + string" where
  "sprintf_16 s = (if length s < 16 then Inr s else Inl Undefined)"

definition bytesToHuman :: "u64 \<Rightarrow> (abort + string) option" where
  "bytesToHuman bytes =
     (case scale_down (double_of_u64 bytes) 0 of
        None \<Rightarrow> None
      | Some (b, i) \<Rightarrow> Some (if i < 6 then sprintf_16 (print_double 2 b @ '' '' @ units ! i) else Inl Undefined))"

definition bytesToHumanOvertime :: "u64 \<Rightarrow> u32 \<Rightarrow> (abort + string) option" where
  "bytesToHumanOvertime bytes seconds =
     (case scale_down (divide_double (double_of_u64 bytes) (of_nat (unat seconds))) 0 of
        None \<Rightarrow> None
      | Some (b, i) \<Rightarrow> Some (if i < 6 then sprintf_16 (print_double i b @ '' '' @ units ! i @ ''/s'') else Inl Undefined))"

section \<open>Rounding\<close>

lemma half_even_bounds:
  "\<bar>of_int (half_even x) - x\<bar> \<le> 1 / 2" "x \<le> of_int n \<Longrightarrow> half_even x \<le> n" "of_int n \<le> x \<Longrightarrow> n \<le> half_even x"
proof -
  have f: "of_int (floor x) \<le> x" "x < of_int (floor x) + 1" by linarith+
  then show "\<bar>of_int (half_even x) - x\<bar> \<le> 1 / 2"
    by (cases "x - of_int (floor x) < 1 / 2 \<or> x - of_int (floor x) = 1 / 2 \<and> even (floor x)")
      (auto simp: half_even_def Let_def abs_le_iff)
  show "n \<le> half_even x" if "of_int n \<le> x"
  proof -
    have "n \<le> floor x" using that by (simp add: le_floor_iff)
    then show ?thesis by (auto simp: half_even_def Let_def)
  qed
  show "half_even x \<le> n" if "x \<le> of_int n"
  proof (cases "half_even x = floor x")
    case False
    then have "x - of_int (floor x) \<noteq> 0" by (auto simp: half_even_def Let_def split: if_splits)
    with f(1) that have "of_int (floor x) < (of_int n :: rat)" by linarith
    then have "floor x < n" by simp
    moreover from False have "half_even x = floor x + 1" by (auto simp: half_even_def Let_def split: if_splits)
    ultimately show ?thesis by simp
  qed (use that f(1) in \<open>simp add: floor_le_iff\<close>)
qed

lemma round53_cases:
  "x \<le> 0 \<Longrightarrow> round53 x = 0"
  "0 < x \<Longrightarrow> x < 2 ^ 52 \<Longrightarrow> round53 x = round53 (2 * x) / 2"
  "2 ^ 52 \<le> x \<Longrightarrow> x < 2 ^ 53 \<Longrightarrow> round53 x = of_int (half_even x)"
  "2 ^ 53 \<le> x \<Longrightarrow> round53 x = 2 * round53 (x / 2)"
  by (subst round53.simps, simp)+

text \<open>Induction over the scaling that \<open>round53\<close> does.\<close>

lemma round53_induct [consumes 1, case_names double binade halve]:
  fixes x :: rat
  assumes "0 < x"
    and "\<And>x. 0 < x \<Longrightarrow> x < 2 ^ 52 \<Longrightarrow> P (2 * x) \<Longrightarrow> P x"
    and "\<And>x. 2 ^ 52 \<le> x \<Longrightarrow> x < 2 ^ 53 \<Longrightarrow> P x"
    and "\<And>x. 2 ^ 53 \<le> x \<Longrightarrow> P (x / 2) \<Longrightarrow> P x"
  shows "P x"
  using assms(1)
proof (induction x rule: round53.induct)
  case (1 x)
  consider "x < 2 ^ 52" | "2 ^ 52 \<le> x" "x < 2 ^ 53" | "2 ^ 53 \<le> x" by linarith
  then show ?case
    by cases (use 1 assms(2-4) in auto)
qed

lemma round53_error: "0 < x \<Longrightarrow> \<bar>round53 x - x\<bar> \<le> x / 2 ^ 53"
proof (induction x rule: round53_induct)
  case (double x)
  then show ?case by (simp add: round53_cases(2) abs_if field_simps split: if_splits)
next
  case (binade x)
  then show ?case using half_even_bounds(1) [of x] by (simp add: round53_cases(3))
next
  case (halve x)
  then show ?case by (simp add: round53_cases(4) abs_if field_simps split: if_splits)
qed

text \<open>Rounding does not go beyond a number that needs no rounding.\<close>

lemma round53_le:
  assumes "0 < x" "x \<le> of_nat m * 2 ^ k" "m < 2 ^ 53"
  shows "round53 x \<le> of_nat m * 2 ^ k"
  using assms
proof (induction x arbitrary: k rule: round53_induct)
  case (double x)
  from double(3) [of "Suc k"] double show ?case by (simp add: round53_cases(2))
next
  case (binade x)
  have "x \<le> of_int (int (m * 2 ^ k))" using binade by simp
  then have "half_even x \<le> int (m * 2 ^ k)" by (rule half_even_bounds(2))
  then have "of_int (half_even x) \<le> (of_int (int (m * 2 ^ k)) :: rat)" by (simp only: of_int_le_iff)
  then show ?case using binade by (simp add: round53_cases(3))
next
  case (halve x)
  show ?case
  proof (cases k)
    case 0
    have "(of_nat m :: rat) < of_nat (2 ^ 53)" using halve.prems(2) by (simp only: of_nat_less_iff)
    with 0 halve show ?thesis by simp
  next
    case (Suc k')
    with halve.IH [of k'] halve.hyps halve.prems show ?thesis by (simp add: round53_cases(4))
  qed
qed

definition power2 :: "rat \<Rightarrow> bool" where
  "power2 l \<longleftrightarrow> (\<exists>k. l = 2 ^ k \<or> l = 1 / 2 ^ k)"

lemma power2_scale: "power2 l \<Longrightarrow> power2 (2 * l)" "power2 l \<Longrightarrow> power2 (l / 2)"
proof -
  show "power2 (2 * l)" if "power2 l"
  proof -
    from that obtain k where "l = 2 ^ k \<or> l = 1 / 2 ^ k" by (auto simp: power2_def)
    then have "2 * l = 2 ^ Suc k \<or> 2 * l = 1 / 2 ^ (k - 1) \<or> 2 * l = 2 ^ 1" by (cases k) auto
    then show ?thesis unfolding power2_def by blast
  qed
  show "power2 (l / 2)" if "power2 l"
  proof -
    from that obtain k where "l = 2 ^ k \<or> l = 1 / 2 ^ k" by (auto simp: power2_def)
    then have "l / 2 = 1 / 2 ^ Suc k \<or> l / 2 = 2 ^ (k - 1) \<or> l / 2 = 1 / 2 ^ 1" by (cases k) auto
    then show ?thesis unfolding power2_def by blast
  qed
qed

lemma round53_ge_power2:
  assumes "0 < x" "power2 l" "l \<le> x"
  shows "l \<le> round53 x"
  using assms
proof (induction x arbitrary: l rule: round53_induct)
  case (double x)
  from double(3) [OF power2_scale(1) [OF double.prems(1)]] double show ?case by (simp add: round53_cases(2))
next
  case (binade x)
  have "l \<le> 2 ^ 52"
  proof -
    from binade(3) obtain k where k: "l = 2 ^ k \<or> l = 1 / 2 ^ k" by (auto simp: power2_def)
    show ?thesis
    proof (cases "l = 2 ^ k")
      case True
      with binade have "(2 :: rat) ^ k < 2 ^ 53" by simp
      then have "k < 53" by (rule power_less_imp_less_exp [rotated]) simp
      then have "(2 :: rat) ^ k \<le> 2 ^ 52" by (intro power_increasing) simp_all
      with True show ?thesis by simp
    next
      case False
      with k have "l \<le> 1" by simp
      then show ?thesis by simp
    qed
  qed
  moreover have "of_int (2 ^ 52) \<le> x" using binade by simp
  then have "2 ^ 52 \<le> half_even x" by (rule half_even_bounds(3))
  then have "(of_int (2 ^ 52) :: rat) \<le> of_int (half_even x)" by (simp only: of_int_le_iff)
  ultimately show ?case using binade by (simp add: round53_cases(3))
next
  case (halve x)
  from halve.IH [OF power2_scale(2) [OF halve.prems(1)]] halve show ?case by (simp add: round53_cases(4))
qed

lemma round53_ge:
  assumes "0 < x" "of_nat m * 2 ^ k \<le> x" "m < 2 ^ 53"
  shows "of_nat m * 2 ^ k \<le> round53 x"
  using assms
proof (induction x arbitrary: k rule: round53_induct)
  case (double x)
  from double(3) [of "Suc k"] double show ?case by (simp add: round53_cases(2))
next
  case (binade x)
  have "of_int (int (m * 2 ^ k)) \<le> x" using binade by simp
  then have "int (m * 2 ^ k) \<le> half_even x" by (rule half_even_bounds(3))
  then have "(of_int (int (m * 2 ^ k)) :: rat) \<le> of_int (half_even x)" by (simp only: of_int_le_iff)
  then show ?case using binade by (simp add: round53_cases(3))
next
  case (halve x)
  show ?case
  proof (cases k)
    case 0
    have "(of_nat m :: rat) < of_nat (2 ^ 53)" using halve.prems(2) by (simp only: of_nat_less_iff)
    moreover have "power2 (2 ^ 53)" unfolding power2_def by blast
    then have "2 ^ 53 \<le> round53 x" using halve.hyps by (intro round53_ge_power2) simp_all
    ultimately show ?thesis using 0 by simp
  next
    case (Suc k')
    with halve.IH [of k'] halve.hyps halve.prems show ?thesis by (simp add: round53_cases(4))
  qed
qed

lemma round53_exact: "0 < m \<Longrightarrow> m < 2 ^ 53 \<Longrightarrow> round53 (of_nat m * 2 ^ k) = of_nat m * 2 ^ k"
  by (rule antisym [OF round53_le round53_ge]) simp_all

section \<open>The loop\<close>

text \<open>Division by zero leaves the loop without an end, a number does not.\<close>

lemma scale_down_Some:
  assumes "scale_down b i = Some r"
  shows "b \<noteq> Infinity"
proof (rule scale_down.raw_induct [of "\<lambda>b i r. b \<noteq> Infinity", OF _ assms])
  fix scale b i r
  assume IH: "\<And>b i r. scale b i = Some r \<Longrightarrow> b \<noteq> Infinity"
    and step: "(if greater_double b 1000 then scale (divide_double b 1000) (i + 1) else Some (b, i)) = Some r"
  show "b \<noteq> Infinity"
  proof
    assume "b = Infinity"
    with step have "scale Infinity (i + 1) = Some r" by (simp add: greater_double_def divide_double_def)
    from IH [OF this] show False by simp
  qed
qed

lemma scale_down_infinite: "scale_down Infinity i = None"
  using scale_down_Some [of Infinity i] by (cases "scale_down Infinity i") auto

lemma round53_pos: "0 < x \<Longrightarrow> 0 < round53 x"
proof (induction x rule: round53_induct)
  case (binade x)
  have "power2 (2 ^ 52)" unfolding power2_def by blast
  then have "2 ^ 52 \<le> round53 x" using binade by (intro round53_ge_power2) simp_all
  then show ?case by simp
qed (simp_all add: round53_cases)

abbreviation unit_error :: rat where
  "unit_error \<equiv> 1 / 2 ^ 53"

lemma round53_relative: "0 \<le> x \<Longrightarrow> (1 - unit_error) * x \<le> round53 x \<and> round53 x \<le> (1 + unit_error) * x"
proof (cases "x = 0")
  case False
  assume "0 \<le> x"
  with False round53_error [of x] have "x - x / 2 ^ 53 \<le> round53 x" "round53 x \<le> x + x / 2 ^ 53"
    by (simp_all only: abs_le_iff) linarith+
  then show ?thesis by (simp add: left_diff_distrib distrib_right)
qed (simp add: round53_cases(1))

text \<open>One turn of the loop stays within the next range.\<close>

lemma scaled_bounds:
  assumes "1000 < b" "b \<le> 10 ^ (3 * Suc (Suc j))" "Suc j \<le> 5"
  shows "1 \<le> round53 (b / 1000)" "round53 (b / 1000) \<le> 10 ^ (3 * Suc j)"
proof -
  have pos: "0 < b / 1000" using assms(1) by simp
  have "(10 :: rat) ^ (3 * Suc (Suc j)) = 1000 * 10 ^ (3 * Suc j)" by (simp add: power_add)
  with assms(2) have "b / 1000 \<le> 10 ^ (3 * Suc j)" by simp
  then have "b / 1000 \<le> of_nat (5 ^ (3 * Suc j)) * 2 ^ (3 * Suc j)"
    by (simp add: power_mult_distrib [symmetric])
  moreover have "(5 :: nat) ^ (3 * Suc j) \<le> 5 ^ 15" using assms(3) by (intro power_increasing) simp_all
  then have "(5 :: nat) ^ (3 * Suc j) < 2 ^ 53" by simp
  ultimately have "round53 (b / 1000) \<le> of_nat (5 ^ (3 * Suc j)) * 2 ^ (3 * Suc j)" by (rule round53_le [OF pos])
  then show "round53 (b / 1000) \<le> 10 ^ (3 * Suc j)" by (simp add: power_mult_distrib [symmetric])
  have "power2 1" unfolding power2_def by (rule exI [of _ 0]) simp
  then show "1 \<le> round53 (b / 1000)" using assms(1) by (intro round53_ge_power2 [OF pos]) simp_all
qed

lemma scaled_error:
  assumes "0 \<le> b" "(1 - unit_error) ^ k * round53 (b / 1000) \<le> v * 1000 ^ k"
    and "v * 1000 ^ k \<le> (1 + unit_error) ^ k * round53 (b / 1000)"
  shows "(1 - unit_error) ^ Suc k * b \<le> v * 1000 ^ Suc k" "v * 1000 ^ Suc k \<le> (1 + unit_error) ^ Suc k * b"
proof -
  note rel = round53_relative [of "b / 1000"]
  have "(1 - unit_error) ^ k * ((1 - unit_error) * (b / 1000)) \<le> (1 - unit_error) ^ k * round53 (b / 1000)"
    using rel assms(1) by (intro mult_left_mono) simp_all
  also note assms(2)
  finally show "(1 - unit_error) ^ Suc k * b \<le> v * 1000 ^ Suc k" by (simp add: field_simps)
  note assms(3)
  also have "(1 + unit_error) ^ k * round53 (b / 1000) \<le> (1 + unit_error) ^ k * ((1 + unit_error) * (b / 1000))"
    using rel assms(1) by (intro mult_left_mono) simp_all
  finally show "v * 1000 ^ Suc k \<le> (1 + unit_error) ^ Suc k * b" by (simp add: field_simps)
qed

lemma scale_down_finite:
  assumes "0 \<le> b" "b \<le> 10 ^ (3 * Suc j)" "j \<le> 5"
  shows "\<exists>v k. k \<le> j \<and> scale_down (Finite b) i = Some (Finite v, i + k) \<and> 0 \<le> v \<and> v \<le> 1000 \<and> (k = 0 \<or> 1 \<le> v) \<and>
    (1 - unit_error) ^ k * b \<le> v * 1000 ^ k \<and> v * 1000 ^ k \<le> (1 + unit_error) ^ k * b"
  using assms
proof (induction j arbitrary: b i)
  case 0
  then show ?case by (subst scale_down.simps) (auto simp: greater_double_def)
next
  case (Suc j)
  show ?case
  proof (cases "1000 < b")
    case False
    with Suc.prems show ?thesis by (subst scale_down.simps) (auto simp: greater_double_def)
  next
    case True
    let ?b = "round53 (b / 1000)"
    note range = scaled_bounds [OF True Suc.prems(2,3)]
    obtain v k where k: "k \<le> j" "scale_down (Finite ?b) (i + 1) = Some (Finite v, i + 1 + k)" "0 \<le> v" "v \<le> 1000"
      "k = 0 \<or> 1 \<le> v" "(1 - unit_error) ^ k * ?b \<le> v * 1000 ^ k" "v * 1000 ^ k \<le> (1 + unit_error) ^ k * ?b"
      using Suc.IH [of ?b "i + 1"] range Suc.prems(3) by auto
    have "scale_down (Finite b) i = Some (Finite v, i + Suc k)"
      using k(2) True by (subst scale_down.simps) (simp add: greater_double_def divide_double_def)
    moreover have "1 \<le> v" using k(5,6) range(1) by (cases "k = 0") simp_all
    ultimately show ?thesis using scaled_error [OF Suc.prems(1) k(6,7)] k(1,3,4)
      by (intro exI [of _ v] exI [of _ "Suc k"]) simp
  qed
qed

section \<open>The text\<close>

lemma length_show_nat_le: "n \<le> 1000 \<Longrightarrow> length (show_nat n) \<le> 4"
  using length_show_nat [of n 3] by simp

lemma length_print_fixed:
  assumes "0 \<le> v" "v \<le> 1000"
  shows "length (print_fixed prec v) \<le> (if prec = 0 then 4 else 5 + prec)"
proof -
  let ?n = "nat (half_even (v * 10 ^ prec))"
  have "v * 10 ^ prec \<le> of_int (1000 * 10 ^ prec)" using assms(2) by simp
  then have "half_even (v * 10 ^ prec) \<le> 1000 * 10 ^ prec" by (rule half_even_bounds(2))
  then have n: "?n \<le> 1000 * 10 ^ prec" by (simp add: nat_le_iff)
  then have "?n div 10 ^ prec \<le> 1000" by (simp add: div_le_mono [THEN order_trans] less_mult_imp_div_less)
  then have head: "length (show_nat (?n div 10 ^ prec)) \<le> 4" by (rule length_show_nat_le)
  have tail: "length (pad_digits prec (?n mod 10 ^ prec)) \<le> prec" if "prec \<noteq> 0"
  proof -
    from that obtain k where k: "prec = Suc k" by (cases prec) auto
    then have "length (show_nat (?n mod 10 ^ prec)) \<le> prec"
      using length_show_nat [of "?n mod 10 ^ prec" k] by simp
    then show ?thesis by (simp add: pad_digits_def Let_def)
  qed
  show ?thesis
  proof (cases "prec = 0")
    case True
    with n length_show_nat_le [of ?n] show ?thesis by (simp add: print_fixed_def Let_def)
  next
    case False
    with head tail show ?thesis by (simp add: print_fixed_def Let_def)
  qed
qed

lemma length_units: "i < 6 \<Longrightarrow> length (units ! i) \<le> (if i = 0 then 1 else 2)"
  by (auto simp: units_def less_Suc_eq numeral_eq_Suc)

lemma round53_18:
  assumes "0 \<le> x" "x \<le> 10 ^ 18"
  shows "0 \<le> round53 x" "round53 x \<le> 10 ^ 18"
proof -
  show "round53 x \<le> 10 ^ 18"
  proof (cases "x = 0")
    case False
    have "x \<le> of_nat (5 ^ 18) * 2 ^ 18" using assms(2) by simp
    with False assms(1) have "round53 x \<le> of_nat (5 ^ 18) * 2 ^ 18" by (intro round53_le) simp_all
    then show ?thesis by simp
  qed (simp add: round53_cases)
  show "0 \<le> round53 x" using assms(1) round53_pos [of x] by (cases "x = 0") (simp_all add: round53_cases)
qed

text \<open>Seven roundings, each within the unit error, stay within \<open>10 ^ -15\<close>.\<close>

lemma rounding_chain:
  assumes "0 \<le> q" "(1 - unit_error) ^ 2 * q \<le> x" "x \<le> (1 + unit_error) ^ 2 * q" "k \<le> 5"
    and "(1 - unit_error) ^ k * x \<le> y" "y \<le> (1 + unit_error) ^ k * x"
  shows "\<bar>y - q\<bar> \<le> q / 10 ^ 15"
proof -
  define lo hi :: rat where "lo = 1 - unit_error" and "hi = 1 + unit_error"
  have bounds: "0 \<le> lo" "lo \<le> 1" "1 \<le> hi" "1 - 1 / 10 ^ 15 \<le> lo ^ 7" "hi ^ 7 \<le> 1 + 1 / 10 ^ 15"
    by (simp_all add: lo_def hi_def power_divide)
  note chain = assms [folded lo_def hi_def]
  have "lo ^ 7 * q \<le> lo ^ (k + 2) * q"
    using chain(1,4) bounds by (intro mult_right_mono power_decreasing) simp_all
  also have "\<dots> \<le> lo ^ k * x"
    using mult_left_mono [OF chain(2), of "lo ^ k"] bounds by (simp only: power_add mult.assoc zero_le_power)
  finally have lower: "lo ^ 7 * q \<le> y" using chain(5) by simp
  have "hi ^ k * x \<le> hi ^ (k + 2) * q"
    using mult_left_mono [OF chain(3), of "hi ^ k"] order_trans [OF zero_le_one bounds(3)]
    by (simp only: power_add mult.assoc zero_le_power)
  also have "\<dots> \<le> hi ^ 7 * q"
    using chain(1,4) bounds by (intro mult_right_mono power_increasing) simp_all
  finally have upper: "y \<le> hi ^ 7 * q" using chain(6) by simp
  have "(1 - 1 / 10 ^ 15) * q \<le> lo ^ 7 * q" "hi ^ 7 * q \<le> (1 + 1 / 10 ^ 15) * q"
    using mult_right_mono [OF bounds(4) chain(1)] mult_right_mono [OF bounds(5) chain(1)] by simp_all
  with lower upper have "(1 - 1 / 10 ^ 15) * q \<le> y" "y \<le> (1 + 1 / 10 ^ 15) * q" by linarith+
  then have "q - q / 10 ^ 15 \<le> y" "y \<le> q + q / 10 ^ 15" by (simp_all only: left_diff_distrib distrib_right) simp_all
  then show ?thesis unfolding abs_le_iff by linarith
qed

text \<open>Both functions, from a value on that was computed with two roundings.\<close>

lemma scaled_text:
  assumes "0 \<le> x" "x \<le> 10 ^ 18" "0 \<le> q" "(1 - unit_error) ^ 2 * q \<le> x" "x \<le> (1 + unit_error) ^ 2 * q"
  shows "\<exists>v i. i < 6 \<and> 0 \<le> v \<and> v \<le> 1000 \<and> (i = 0 \<or> 1 \<le> v) \<and> \<bar>v * 1000 ^ i - q\<bar> \<le> q / 10 ^ 15 \<and>
    scale_down (Finite x) 0 = Some (Finite v, i)"
proof -
  obtain v k where k: "k \<le> 5" "scale_down (Finite x) 0 = Some (Finite v, k)" "0 \<le> v" "v \<le> 1000" "k = 0 \<or> 1 \<le> v"
    "(1 - unit_error) ^ k * x \<le> v * 1000 ^ k" "v * 1000 ^ k \<le> (1 + unit_error) ^ k * x"
    using scale_down_finite [OF assms(1), of 5 0] assms(2) by auto
  from rounding_chain [OF assms(3-5) k(1,6,7)] k show ?thesis
    by (intro exI [of _ v] exI [of _ k]) simp
qed

section \<open>What the functions print\<close>

lemma two_roundings:
  assumes "0 \<le> n" "1 \<le> s"
  shows "(1 - unit_error) ^ 2 * (n / s) \<le> round53 (round53 n / s)" "round53 (round53 n / s) \<le> (1 + unit_error) ^ 2 * (n / s)"
proof -
  have "0 \<le> round53 n" using assms(1) round53_pos [of n] by (cases "n = 0") (simp_all add: round53_cases)
  then have "0 \<le> round53 n / s" using assms(2) by simp
  note rel = round53_relative [OF assms(1)] round53_relative [OF this]
  have "(1 - unit_error) * n / s \<le> round53 n / s" using rel(1) assms(2) by (intro divide_right_mono) simp_all
  then have "(1 - unit_error) * ((1 - unit_error) * n / s) \<le> (1 - unit_error) * (round53 n / s)"
    by (intro mult_left_mono) simp_all
  with rel(2) show "(1 - unit_error) ^ 2 * (n / s) \<le> round53 (round53 n / s)" by (simp add: power2_eq_square)
  have "round53 n / s \<le> (1 + unit_error) * n / s" using rel(1) assms(2) by (intro divide_right_mono) simp_all
  then have "(1 + unit_error) * (round53 n / s) \<le> (1 + unit_error) * ((1 + unit_error) * n / s)"
    by (intro mult_left_mono) simp_all
  with rel(2) show "round53 (round53 n / s) \<le> (1 + unit_error) ^ 2 * (n / s)" by (simp add: power2_eq_square)
qed

lemma rate_of_zero: "bytesToHumanOvertime bytes 0 = (if bytes = 0 then Some (Inr ''-nan B/s'') else None)"
proof -
  have "round53 (of_nat (unat bytes)) = 0 \<longleftrightarrow> bytes = 0"
  proof (cases "bytes = 0")
    case False
    then have "0 < unat bytes" by (simp add: unat_gt_0)
    then have "(0 :: rat) < of_nat (unat bytes)" by (simp only: of_nat_0_less_iff)
    from round53_pos [OF this] False show ?thesis by simp
  qed (simp add: round53_cases)
  then show ?thesis
    by (auto simp: bytesToHumanOvertime_def divide_double_def double_of_u64_def scale_down_infinite scale_down.simps [of NaN]
        greater_double_def sprintf_16_def print_double_def units_def)
qed

lemma rate_text:
  assumes "unat (bytes :: u64) \<le> 10 ^ 18" "rate = (of_nat (unat bytes) / of_nat (unat (seconds :: u32)) :: rat)"
  shows "if seconds = 0 then bytesToHumanOvertime bytes seconds = (if bytes = 0 then Some (Inr ''-nan B/s'') else None)
    else \<exists>v i. i < 6 \<and> v \<le> 1000 \<and> (i = 0 \<or> 1 \<le> v) \<and> \<bar>v * 1000 ^ i - rate\<bar> \<le> rate / 10 ^ 15 \<and>
      bytesToHumanOvertime bytes seconds = Some (Inr (print_fixed i v @ '' '' @ units ! i @ ''/s''))"
proof (cases "seconds = 0")
  case False
  define n s where "n = (of_nat (unat bytes) :: rat)" and "s = (of_nat (unat seconds) :: rat)"
  have "1 \<le> unat seconds" using False by (simp add: unat_gt_0 Suc_le_eq)
  then have "(of_nat 1 :: rat) \<le> of_nat (unat seconds)" by (simp only: of_nat_le_iff)
  then have s: "1 \<le> s" by (simp add: s_def)
  have "(of_nat (unat bytes) :: rat) \<le> of_nat (10 ^ 18)" using assms(1) by (simp only: of_nat_le_iff)
  moreover have "(0 :: rat) \<le> of_nat (unat bytes)" by (rule of_nat_0_le_iff)
  ultimately have n: "0 \<le> n" "n \<le> 10 ^ 18" by (simp_all add: n_def)
  note b = round53_18 [OF n]
  have q: "0 \<le> round53 n / s" "round53 n / s \<le> 10 ^ 18"
    using b s by (simp_all add: divide_le_eq order_trans [OF b(2)])
  have rate: "rate = n / s" "0 \<le> n / s" using assms(2) n(1) s by (simp_all add: n_def s_def)
  from scaled_text [OF round53_18 [OF q] rate(2) two_roundings [OF n(1) s]] obtain v i where
    v: "i < 6" "0 \<le> v" "v \<le> 1000" "i = 0 \<or> 1 \<le> v" "\<bar>v * 1000 ^ i - rate\<bar> \<le> rate / 10 ^ 15"
    and scaled: "scale_down (Finite (round53 (round53 n / s))) 0 = Some (Finite v, i)"
    unfolding rate by blast
  have "length (print_fixed i v @ '' '' @ units ! i @ ''/s'') < 16"
    using length_print_fixed [OF v(2,3), of i] length_units [OF v(1)] v(1) by (auto split: if_splits)
  with scaled v(1) False s have "bytesToHumanOvertime bytes seconds = Some (Inr (print_fixed i v @ '' '' @ units ! i @ ''/s''))"
    by (simp add: bytesToHumanOvertime_def divide_double_def double_of_u64_def sprintf_16_def print_double_def n_def s_def)
  with v False show ?thesis by auto
qed (simp add: rate_of_zero)

text \<open>
  C37. Rates and counts up to \<open>10 ^ 18\<close> bytes: the text is the number in a unit of the table that brings it
  into the range of 1 to 1000 (or bytes below that), it is within \<open>10 ^ -15\<close> of the exact quotient before it is
  printed with the digits of the format, and it fits the buffer; with an interval of 0 the loop does
  not end, unless there are no bytes.
\<close>

theorem human_readable_rates:
  assumes "unat (bytes :: u64) \<le> 10 ^ 18" "rate = (of_nat (unat bytes) / of_nat (unat (seconds :: u32)) :: rat)"
  shows "if seconds = 0 then bytesToHumanOvertime bytes seconds = (if bytes = 0 then Some (Inr ''-nan B/s'') else None)
    else \<exists>v i. i < 6 \<and> v \<le> 1000 \<and> (i = 0 \<or> 1 \<le> v) \<and> \<bar>v * 1000 ^ i - rate\<bar> \<le> rate / 10 ^ 15 \<and>
      bytesToHumanOvertime bytes seconds = Some (Inr (print_fixed i v @ '' '' @ units ! i @ ''/s''))"
  using rate_text [OF assms] .

theorem human_readable_rates_witness:
  "bytesToHumanOvertime 10000 0 = None \<and>
   (\<exists>v i. i < 6 \<and> v \<le> 1000 \<and> (i = 0 \<or> 1 \<le> v) \<and> \<bar>v * 1000 ^ i - 12345678 / 10\<bar> \<le> 12345678 / 10 ^ 16 \<and>
      bytesToHumanOvertime 12345678 10 = Some (Inr (print_fixed i v @ '' '' @ units ! i @ ''/s'')))"
  using human_readable_rates [of 10000 _ 0, OF _ refl] human_readable_rates [of 12345678 _ 10, OF _ refl] by simp

text \<open>A count of bytes.\<close>

lemma human_readable_count:
  assumes "unat (bytes :: u64) \<le> 10 ^ 18"
  shows "\<exists>v i. i < 6 \<and> v \<le> 1000 \<and> (i = 0 \<or> 1 \<le> v) \<and>
    \<bar>v * 1000 ^ i - of_nat (unat bytes)\<bar> \<le> of_nat (unat bytes) / 10 ^ 15 \<and>
    bytesToHuman bytes = Some (Inr (print_fixed 2 v @ '' '' @ units ! i))"
proof -
  define n :: rat where "n = of_nat (unat bytes)"
  have "(of_nat (unat bytes) :: rat) \<le> of_nat (10 ^ 18)" using assms by (simp only: of_nat_le_iff)
  moreover have "(0 :: rat) \<le> of_nat (unat bytes)" by (rule of_nat_0_le_iff)
  ultimately have n: "0 \<le> n" "n \<le> 10 ^ 18" by (simp_all add: n_def)
  have "(1 - unit_error) ^ 2 * n \<le> (1 - unit_error) * n" "(1 + unit_error) * n \<le> (1 + unit_error) ^ 2 * n"
    using n(1) by (intro mult_right_mono; simp add: power2_eq_square)+
  with round53_relative [OF n(1)] have "(1 - unit_error) ^ 2 * n \<le> round53 n" "round53 n \<le> (1 + unit_error) ^ 2 * n"
    by linarith+
  from scaled_text [OF round53_18 [OF n] n(1) this] obtain v i where
    v: "i < 6" "0 \<le> v" "v \<le> 1000" "i = 0 \<or> 1 \<le> v" "\<bar>v * 1000 ^ i - n\<bar> \<le> n / 10 ^ 15"
    and scaled: "scale_down (Finite (round53 n)) 0 = Some (Finite v, i)"
    by blast
  have "length (print_fixed 2 v @ '' '' @ units ! i) < 16"
    using length_print_fixed [OF v(2,3), of 2] length_units [OF v(1)] by (auto split: if_splits)
  with scaled v(1) have "bytesToHuman bytes = Some (Inr (print_fixed 2 v @ '' '' @ units ! i))"
    by (simp add: bytesToHuman_def double_of_u64_def sprintf_16_def print_double_def n_def)
  with v show ?thesis unfolding n_def by blast
qed

text \<open>The examples of the header's comments, which promise \<open>1.0 KB\<close> and \<open>1.0 KB/s\<close>.\<close>

lemma documented_examples:
  "bytesToHuman 1000 = Some (Inr ''1000.00 B'')" "bytesToHumanOvertime 10000 10 = Some (Inr ''1000 B/s'')"
proof -
  have "round53 1000 = 1000" "round53 10000 = 10000"
    using round53_exact [of 1000 0] round53_exact [of 10000 0] by simp_all
  moreover have "half_even 1000 = 1000" "half_even 100000 = 100000"
    by (simp_all add: half_even_def)
  ultimately show "bytesToHuman 1000 = Some (Inr ''1000.00 B'')" "bytesToHumanOvertime 10000 10 = Some (Inr ''1000 B/s'')"
    by (simp_all add: bytesToHuman_def bytesToHumanOvertime_def double_of_u64_def divide_double_def scale_down.simps
        greater_double_def print_double_def print_fixed_def pad_digits_def Let_def sprintf_16_def units_def
        show_nat.simps digit_char_def char_of_def bit_0 One_nat_def)
qed

end
