(* ===== verification/API_Server.thy ===== *)
theory API_Server
  imports API_Controller Human_Readable
begin

text \<open>
  \<open>src/src/api/APIController.cpp\<close>: the server around the requests, and the text of the \<open>live-text\<close> stream.
  The socket calls are the outside: which of them succeed, what a connection delivers, and whether it
  is broken (its peer closed and reset it, so that \<open>send\<close> fails with \<open>EPIPE\<close>) by the time of the reply. What the
  server does with a connection is a list of actions.
\<close>

section \<open>The server\<close>

record socket_env =
  sock_create :: bool
  sock_attach :: bool
  sock_bind :: "u16 \<Rightarrow> bool"

text \<open>\<open>startSocketServer\<close> up to its thread: whether the thread runs. Without it the program has no API.\<close>

definition startSocketServer :: "socket_env \<Rightarrow> u16 \<Rightarrow> bool" where
  "startSocketServer env port =
     (if \<not> sock_create env then False
      else if \<not> sock_attach env then False
      else if \<not> sock_bind env port then False
      else True)"

text \<open>A turn of the thread: a failed call, or a connection with what its handlers read meanwhile.\<close>

datatype connection_event = Listen_failed | Accept_failed | Accepted api_env nat "string option" bool

datatype server_action = Sent nat json | Closed_fd nat | Live_text_thread nat | Live_thread nat

text \<open>Why the process ends within a turn; \<open>SIGPIPE\<close> is not handled.\<close>

datatype server_end = Aborted abort | Sigpipe

text \<open>
  The end of every handler: \<open>dump\<close> prints the payload or throws, which ends the process; the text is sent
  and the connection closed. The replies with an error are sent without \<open>MSG_NOSIGNAL\<close>, so that a broken
  connection ends the process; the others ignore a failure of \<open>send\<close>.
\<close>

definition is_error :: "json \<Rightarrow> bool" where
  "is_error j \<longleftrightarrow> json_get ''result'' j = JText ''error''"

definition send_json :: "(json \<Rightarrow> string option) \<Rightarrow> nat \<Rightarrow> bool \<Rightarrow> json \<Rightarrow> server_end + server_action list" where
  "send_json dump fd broken j =
     (case dump j of
        None \<Rightarrow> Inl (Aborted Json_error)
      | Some msg \<Rightarrow> if is_error j \<and> broken then Inl Sigpipe else Inr [Sent fd j, Closed_fd fd])"

fun server_turn :: "(json \<Rightarrow> string option) \<Rightarrow> connection_event \<Rightarrow> server_end + server_action list" where
  "server_turn dump Listen_failed = Inr []"
| "server_turn dump Accept_failed = Inr []"
| "server_turn dump (Accepted env fd received broken) =
     (case handle_request env received of
        Inl a \<Rightarrow> Inl (Aborted a)
      | Inr Start_live_text \<Rightarrow> Inr [Live_text_thread fd]
      | Inr Start_live \<Rightarrow> Inr [Live_thread fd]
      | Inr (Reply j) \<Rightarrow> send_json dump fd broken j)"

fun server_loop :: "(json \<Rightarrow> string option) \<Rightarrow> connection_event list \<Rightarrow> server_end + server_action list" where
  "server_loop dump [] = Inr []"
| "server_loop dump (e # es) =
     (case server_turn dump e of
        Inl a \<Rightarrow> Inl a
      | Inr acts \<Rightarrow> (case server_loop dump es of Inl a \<Rightarrow> Inl a | Inr rest \<Rightarrow> Inr (acts @ rest)))"

section \<open>The text stream\<close>

definition welcomeMsg :: string where
  "welcomeMsg = ''Connected to ntmd live traffic update stream, awaiting first traffic interval.'' @ [CHR 0x0A]"

text \<open>Results of the formatting: \<open>None\<close> when it does not return.\<close>

type_synonym formatted = "(abort + string) option"

definition bind_formatted :: "formatted \<Rightarrow> (string \<Rightarrow> formatted) \<Rightarrow> formatted" where
  "bind_formatted x f = (case x of None \<Rightarrow> None | Some (Inl a) \<Rightarrow> Some (Inl a) | Some (Inr s) \<Rightarrow> f s)"

text \<open>\<open>int\<close> becomes \<open>unsigned\<close> in the call.\<close>

definition text_line :: "string \<Rightarrow> TrafficLine \<Rightarrow> i32 \<Rightarrow> formatted" where
  "text_line name line interval =
     bind_formatted (bytesToHumanOvertime (bytesRx line) interval) (\<lambda>rx.
     bind_formatted (bytesToHumanOvertime (bytesTx line) interval) (\<lambda>tx.
       Some (Inr (''  '' @ name @ '' { rx: '' @ rx @ '', tx: '' @ tx @
         '', rxc: '' @ to_string (sint (pktRxCount line)) @ '', txc: '' @ to_string (sint (pktTxCount line)) @
         '' }'' @ [CHR 0x0A]))))"

fun text_lines :: "(string \<times> TrafficLine) list \<Rightarrow> i32 \<Rightarrow> string \<Rightarrow> formatted" where
  "text_lines [] interval ss = Some (Inr ss)"
| "text_lines ((name, line) # traffic) interval ss =
     bind_formatted (text_line name line interval) (\<lambda>t. text_lines traffic interval (ss @ t))"

text \<open>What \<open>liveText\<close> sends for a message of its stream.\<close>

definition live_text_payload :: "(TrafficMap \<Rightarrow> (string \<times> TrafficLine) list) \<Rightarrow> message \<Rightarrow> formatted" where
  "live_text_payload iterate m =
     (case m of
        Refused \<Rightarrow> Some (Inr ''Only one live API stream at a time is currently supported.'')
      | Update traffic None \<Rightarrow> Some (Inl Undefined)
      | Update traffic (Some interval) \<Rightarrow> text_lines (iterate traffic) interval (''Application Traffic:'' @ [CHR 0x0A]))"

text \<open>
  What a thread of \<open>liveText\<close> passes to \<open>send\<close>, and whether its descriptor is still open, given the messages
  of its stream and whether each could be sent. It ends with a refusal or with a peer that has gone; when
  the peer has gone before the welcome, it leaves the descriptor open.
\<close>

fun live_text_loop ::
  "(TrafficMap \<Rightarrow> (string \<times> TrafficLine) list) \<Rightarrow> (message \<times> bool) list \<Rightarrow> (abort + string list \<times> bool) option" where
  "live_text_loop iterate [] = Some (Inr ([], True))"
| "live_text_loop iterate ((m, ok) # ms) =
     (case live_text_payload iterate m of
        None \<Rightarrow> None
      | Some (Inl a) \<Rightarrow> Some (Inl a)
      | Some (Inr t) \<Rightarrow>
          if is_Refused m \<or> \<not> ok then Some (Inr ([t], False))
          else (case live_text_loop iterate ms of
            None \<Rightarrow> None
          | Some (Inl a) \<Rightarrow> Some (Inl a)
          | Some (Inr (ts, is_open)) \<Rightarrow> Some (Inr (t # ts, is_open))))"

definition liveText ::
  "(TrafficMap \<Rightarrow> (string \<times> TrafficLine) list) \<Rightarrow> bool \<Rightarrow> (message \<times> bool) list \<Rightarrow> (abort + string list \<times> bool) option" where
  "liveText iterate welcomed ms =
     (if \<not> welcomed then Some (Inr ([welcomeMsg], True))
      else (case live_text_loop iterate ms of
        None \<Rightarrow> None
      | Some (Inl a) \<Rightarrow> Some (Inl a)
      | Some (Inr (ts, is_open)) \<Rightarrow> Some (Inr (welcomeMsg # ts, is_open))))"

section \<open>The text exists\<close>

definition small_line :: "TrafficLine \<Rightarrow> bool" where
  "small_line l \<longleftrightarrow> unat (bytesRx l) \<le> 10 ^ 18 \<and> unat (bytesTx l) \<le> 10 ^ 18"

lemma rate_exists: "interval \<noteq> 0 \<Longrightarrow> unat (bytes :: u64) \<le> 10 ^ 18 \<Longrightarrow> \<exists>t. bytesToHumanOvertime bytes interval = Some (Inr t)"
  using rate_text [OF _ refl, of bytes interval] by auto

lemma text_lines_exist:
  assumes "interval \<noteq> 0" "\<forall>x\<in>set traffic. small_line (snd x)"
  shows "\<exists>t. text_lines traffic interval ss = Some (Inr (ss @ t))"
  using assms(2)
proof (induction traffic arbitrary: ss)
  case (Cons x traffic)
  obtain name line where x: "x = (name, line)" by fastforce
  with Cons.prems have "small_line line" by simp
  then have small: "unat (bytesRx line) \<le> 10 ^ 18" "unat (bytesTx line) \<le> 10 ^ 18" unfolding small_line_def by blast+
  obtain rx where rx: "bytesToHumanOvertime (bytesRx line) interval = Some (Inr rx)"
    using rate_exists [OF assms(1) small(1)] by blast
  obtain tx where tx: "bytesToHumanOvertime (bytesTx line) interval = Some (Inr tx)"
    using rate_exists [OF assms(1) small(2)] by blast
  from rx tx have "\<exists>t. text_line name line interval = Some (Inr t)" by (simp add: text_line_def bind_formatted_def)
  then obtain t where "text_line name line interval = Some (Inr t)" by blast
  moreover from Cons.IH Cons.prems obtain t' where "text_lines traffic interval (ss @ t) = Some (Inr ((ss @ t) @ t'))"
    by fastforce
  ultimately show ?case by (simp add: x bind_formatted_def)
qed simp

text \<open>The other way round: only a line with more than \<open>10 ^ 18\<close> bytes makes the text leave its buffer.\<close>

lemma rate_abort:
  assumes "bytesToHumanOvertime bytes interval = Some (Inl a)"
  shows "a = Undefined" "10 ^ 18 < unat bytes"
proof -
  show "a = Undefined"
    using assms by (auto simp: bytesToHumanOvertime_def sprintf_16_def split: option.splits if_splits)
  show "10 ^ 18 < unat bytes"
  proof (rule ccontr)
    assume "\<not> 10 ^ 18 < unat bytes"
    with assms rate_exists [of interval bytes] rate_of_zero [of bytes] show False
      by (cases "interval = 0") (auto split: if_splits)
  qed
qed

lemma text_line_abort: "text_line name line interval = Some (Inl a) \<Longrightarrow> a = Undefined \<and> \<not> small_line line"
  by (auto simp: text_line_def bind_formatted_def small_line_def dest: rate_abort split: option.splits sum.splits)

lemma text_lines_abort:
  "text_lines traffic interval ss = Some (Inl a) \<Longrightarrow> a = Undefined \<and> (\<exists>x\<in>set traffic. \<not> small_line (snd x))"
  by (induction traffic interval ss rule: text_lines.induct)
    (auto simp: bind_formatted_def dest: text_line_abort split: option.splits sum.splits)

text \<open>In every interleaving, while the interval is not 0, the messages of a text stream have their text.\<close>

lemma live_text_exists:
  assumes "live_run (live_init interval) es s" "(a, m) \<in> set (messages s)" "interval \<noteq> 0" "iterates iterate"
    and "\<And>t i. m = Update t i \<Longrightarrow> finite (dom t) \<and> (\<forall>l\<in>ran t. small_line l)"
  shows "\<exists>text. live_text_payload iterate m = Some (Inr text)"
proof (cases m)
  case Refused
  then show ?thesis by (simp add: live_text_payload_def)
next
  case (Update t i)
  with update_interval [OF assms(1)] assms(2) have i: "i = Some interval" by blast
  from assms(5) [OF Update] have t: "finite (dom t)" "\<forall>l\<in>ran t. small_line l" by blast+
  then have m: "map_of (iterate t) = t" "distinct (map fst (iterate t))" using assms(4) by (simp_all add: iterates_def)
  have "\<forall>x\<in>set (iterate t). small_line (snd x)"
  proof
    fix x
    assume "x \<in> set (iterate t)"
    then have "t (fst x) = Some (snd x)" using m by (metis map_of_eq_Some_iff prod.collapse)
    then have "snd x \<in> ran t" by (rule ranI)
    with t(2) show "small_line (snd x)" by blast
  qed
  from text_lines_exist [OF assms(3) this] Update i show ?thesis by (auto simp: live_text_payload_def)
qed

text \<open>
  A text stream that is not refused and whose peer stays passes on every update, in order, and stays open.
\<close>

lemma live_text_loop_all:
  assumes "\<forall>m\<in>set ms. \<not> is_Refused m" "\<forall>m\<in>set ms. \<exists>t. live_text_payload iterate m = Some (Inr t)"
  shows "\<exists>ts. live_text_loop iterate (map (\<lambda>m. (m, True)) ms) = Some (Inr (ts, True)) \<and>
    list_all2 (\<lambda>m t. live_text_payload iterate m = Some (Inr t)) ms ts"
  using assms
proof (induction ms)
  case (Cons m ms)
  then obtain t ts where "live_text_payload iterate m = Some (Inr t)"
    "live_text_loop iterate (map (\<lambda>m. (m, True)) ms) = Some (Inr (ts, True))"
    "list_all2 (\<lambda>m t. live_text_payload iterate m = Some (Inr t)) ms ts"
    by auto
  with Cons.prems(1) show ?case by simp
qed simp

lemma liveText_all:
  assumes run: "live_run (live_init interval) es s" and "interval \<noteq> 0" "iterates iterate"
    and ms: "ms = map snd [x \<leftarrow> messages s. fst x = a]" "\<forall>m\<in>set ms. \<not> is_Refused m"
    and small: "\<And>t i. Update t i \<in> set ms \<Longrightarrow> finite (dom t) \<and> (\<forall>l\<in>ran t. small_line l)"
  shows "\<exists>ts. liveText iterate True (map (\<lambda>m. (m, True)) ms) = Some (Inr (welcomeMsg # ts, True)) \<and>
    list_all2 (\<lambda>m t. live_text_payload iterate m = Some (Inr t)) ms ts"
proof -
  have "\<exists>t. live_text_payload iterate m = Some (Inr t)" if m: "m \<in> set ms" for m
  proof -
    from m ms(1) have "(a, m) \<in> set (messages s)" by auto
    then show ?thesis using live_text_exists [OF run _ assms(2,3)] small m by blast
  qed
  with live_text_loop_all [OF ms(2)] show ?thesis by (force simp: liveText_def)
qed

section \<open>Every connection is answered\<close>

definition request_ok :: "string option \<Rightarrow> bool" where
  "request_ok received = (case received of
     None \<Rightarrow> False | Some bytes \<Rightarrow> bytes \<noteq> [] \<and> length bytes < 1024 \<and> hd bytes \<notin> {CHR 0x00, CHR '' ''})"

fun event_ok :: "connection_event \<Rightarrow> bool" where
  "event_ok (Accepted env fd received broken) = request_ok received"
| "event_ok _ = True"

fun connection_broken :: "connection_event \<Rightarrow> bool" where
  "connection_broken (Accepted env fd received broken) = broken"
| "connection_broken _ = False"

text \<open>A reply that \<open>dump\<close> cannot print; some name in the traffic of the storage or the database is the reason.\<close>

fun unprintable :: "connection_event \<Rightarrow> bool" where
  "unprintable (Accepted env fd received broken) \<longleftrightarrow>
     (case handle_request env received of Inr (Reply j) \<Rightarrow> \<not> json_utf8 j | _ \<Rightarrow> False)"
| "unprintable _ = False"

lemma unprintable_names: "unprintable (Accepted env fd received broken) \<Longrightarrow> \<not> env_utf8 env"
  using reply_utf8 by (auto split: sum.splits response.splits)

text \<open>Why a turn of the server ends the process.\<close>

definition turn_end :: "connection_event \<Rightarrow> server_end \<Rightarrow> bool" where
  "turn_end e r \<longleftrightarrow>
     (if \<not> event_ok e then r = Aborted Undefined
      else if unprintable e then r = Aborted Json_error
      else connection_broken e \<and> r = Sigpipe)"

text \<open>What becomes of a connection: a stream, or one reply that is then closed.\<close>

fun answered :: "connection_event \<Rightarrow> server_action list \<Rightarrow> bool" where
  "answered (Accepted env fd received broken) acts \<longleftrightarrow>
     acts = [Live_thread fd] \<or> acts = [Live_text_thread fd] \<or> (\<exists>j. acts = [Sent fd j, Closed_fd fd] \<and> reply_ok j)"
| "answered _ acts \<longleftrightarrow> acts = []"

lemma server_turn_cases:
  assumes "strict_dump dump"
  shows "case server_turn dump e of
     Inr acts \<Rightarrow> event_ok e \<and> \<not> unprintable e \<and> answered e acts
   | Inl r \<Rightarrow> turn_end e r"
proof (cases e)
  case (Accepted env fd received broken)
  note request = request_answered [where env = env and received = received]
  show ?thesis
  proof (cases "handle_request env received")
    case (Inl a)
    with request Accepted show ?thesis by (auto simp: request_ok_def turn_end_def split: option.splits)
  next
    case (Inr r)
    with request have ok: "request_ok received" "response_ok r"
      by (auto simp: request_ok_def Suc_le_eq split: option.splits)
    show ?thesis
    proof (cases r)
      case (Reply j)
      have "dump j = None \<longleftrightarrow> \<not> json_utf8 j" using assms by (simp add: strict_dump_def)
      with Inr Reply Accepted ok show ?thesis
        by (auto simp: response_ok_def send_json_def turn_end_def split: option.split)
    qed (use Inr Accepted ok in simp_all)
  qed
qed simp_all


text \<open>A library that prints only what it must; the text itself plays no part.\<close>

definition sample_dump :: "json \<Rightarrow> string option" where
  "sample_dump j = (if json_utf8 j then Some [] else None)"

lemma sample_dump_strict: "strict_dump sample_dump"
  by (simp add: strict_dump_def sample_dump_def)


end
