(* ===== verification/Cxx_Scan.thy ===== *)
theory Cxx_Scan
  imports Cxx_Std
begin

text \<open>
  \<open>sscanf\<close> of the C library, for the conversions the socket index uses. A format is a list of
  directives; scanning stops at the first directive that fails and yields the values of the
  assigned conversions up to there, so that their number is the number of matches.
\<close>

section \<open>Directives\<close>

text \<open>
  \<open>Dec\<close> is \<open>%d\<close> or \<open>%ld\<close>, \<open>Hex\<close> is \<open>%X\<close> or \<open>%hX\<close>, \<open>Set n P\<close> is \<open>%n[...]\<close>, \<open>Str n\<close> is \<open>%ns\<close>; the
  flag says that the conversion is assigned (no \<open>*\<close>).
\<close>

datatype directive =
    Blank
  | Lit char
  | Dec bool
  | Hex bool
  | Set bool nat "char \<Rightarrow> bool"
  | Str bool nat

datatype scan_value = Number u64 | Text string

definition hex_digit_value :: "char \<Rightarrow> nat" where
  [cxx_eval]: "hex_digit_value c =
     (let n = of_char c in if n \<le> 57 then n - 48 else if n \<le> 70 then n - 55 else n - 87)"

definition hex_value :: "string \<Rightarrow> nat" where
  [cxx_eval]: "hex_value ds = foldl (\<lambda>v c. 16 * v + hex_digit_value c) 0 ds"

text \<open>\<open>strtol\<close> and \<open>strtoul\<close> saturate; a negated unsigned value wraps around.\<close>

definition scan_dec :: "string \<Rightarrow> (u64 \<times> string) option" where
  [cxx_eval]: "scan_dec s =
     (let (neg, u) = sign_split (dropWhile isspace s); ds = takeWhile isdigit u;
          v = (if neg then - int (decimal_value ds) else int (decimal_value ds))
      in if ds = [] then None
         else Some (word_of_int (max (- (2 ^ 63)) (min (2 ^ 63 - 1) v)), drop (length ds) u))"

definition strip_0x :: "string \<Rightarrow> string" where
  [cxx_eval]: "strip_0x u =
     (case u of a # b # r \<Rightarrow> if a = CHR ''0'' \<and> (b = CHR ''x'' \<or> b = CHR ''X'') then r else u | _ \<Rightarrow> u)"

definition scan_hex :: "string \<Rightarrow> (u64 \<times> string) option" where
  [cxx_eval]: "scan_hex s =
     (let (neg, u) = sign_split (dropWhile isspace s); u = strip_0x u; ds = takeWhile isxdigit u
      in if ds = [] then None
         else Some (if 2 ^ 64 \<le> hex_value ds then - 1
                    else if neg then - word_of_nat (hex_value ds) else word_of_nat (hex_value ds),
                    drop (length ds) u))"

fun sscanf :: "directive list \<Rightarrow> string \<Rightarrow> scan_value list" where
  "sscanf [] s = []"
| "sscanf (Blank # ds) s = sscanf ds (dropWhile isspace s)"
| "sscanf (Lit c # ds) s = (case s of [] \<Rightarrow> [] | x # xs \<Rightarrow> if x = c then sscanf ds xs else [])"
| "sscanf (Dec asg # ds) s =
     (case scan_dec s of None \<Rightarrow> []
      | Some (v, r) \<Rightarrow> if asg then Number v # sscanf ds r else sscanf ds r)"
| "sscanf (Hex asg # ds) s =
     (case scan_hex s of None \<Rightarrow> []
      | Some (v, r) \<Rightarrow> if asg then Number v # sscanf ds r else sscanf ds r)"
| "sscanf (Set asg n P # ds) s =
     (let t = takeWhile P (take n s); r = drop (length t) s
      in if t = [] then [] else if asg then Text t # sscanf ds r else sscanf ds r)"
| "sscanf (Str asg n # ds) s =
     (let u = dropWhile isspace s; t = takeWhile (\<lambda>c. \<not> isspace c) (take n u); r = drop (length t) u
      in if t = [] then [] else if asg then Text t # sscanf ds r else sscanf ds r)"

section \<open>Printed numbers\<close>

definition hex_char :: "nat \<Rightarrow> char" where
  "hex_char d = char_of (if d < 10 then 48 + d else 55 + d)"

text \<open>\<open>%08X\<close> and \<open>%04X\<close> of a value that fits.\<close>

fun show_hex :: "nat \<Rightarrow> nat \<Rightarrow> string" where
  "show_hex 0 n = []"
| "show_hex (Suc w) n = show_hex w (n div 16) @ [hex_char (n mod 16)]"

lemma hex_char_facts [simp]:
  "d < 16 \<Longrightarrow> isxdigit (hex_char d)" "d < 16 \<Longrightarrow> hex_digit_value (hex_char d) = d"
  by (auto simp: isxdigit_def isdigit_def hex_char_def hex_digit_value_def)

lemma length_show_hex [simp]: "length (show_hex w n) = w"
  by (induction w n rule: show_hex.induct) auto

lemma set_show_hex: "\<forall>c\<in>set (show_hex w n). isxdigit c"
  by (induction w n rule: show_hex.induct) auto

lemma hex_value_snoc [simp]: "hex_value (ds @ [c]) = 16 * hex_value ds + hex_digit_value c"
  by (simp add: hex_value_def)

lemma hex_value_Nil [simp]: "hex_value [] = 0"
  by (simp add: hex_value_def)

lemma hex_value_show_hex: "n < 16 ^ w \<Longrightarrow> hex_value (show_hex w n) = n"
  by (induction w n rule: show_hex.induct) auto

lemma isxdigit_facts:
  "isxdigit c \<Longrightarrow> \<not> isspace c \<and> c \<noteq> CHR ''-'' \<and> c \<noteq> CHR ''+'' \<and> c \<noteq> CHR ''x'' \<and> c \<noteq> CHR ''X''"
  by (auto simp: isxdigit_def isdigit_def isspace_def)

definition stops :: "(char \<Rightarrow> bool) \<Rightarrow> string \<Rightarrow> bool" where
  "stops P rest \<longleftrightarrow> rest = [] \<or> \<not> P (hd rest)"

lemma stops_simps [simp]: "stops P []" "stops P (c # s) \<longleftrightarrow> \<not> P c"
  by (simp_all add: stops_def)

lemma stops_takeWhile: "stops P rest \<Longrightarrow> takeWhile P rest = []"
  by (cases rest) auto

lemma takeWhile_stops: "(\<forall>c\<in>set ds. P c) \<Longrightarrow> stops P rest \<Longrightarrow> takeWhile P (ds @ rest) = ds"
  by (rule takeWhile_append_stop) (auto simp: stops_def)

lemma scan_hex_digits:
  assumes ds: "ds \<noteq> []" "\<forall>c\<in>set ds. isxdigit c"
    and rest: "stops (\<lambda>c. isxdigit c \<or> c = CHR ''x'' \<or> c = CHR ''X'') rest"
  shows "scan_hex (ds @ rest) =
    Some (if 2 ^ 64 \<le> hex_value ds then - 1 else word_of_nat (hex_value ds), rest)"
proof -
  obtain d ds' where d: "ds = d # ds'" using ds(1) by (cases ds) auto
  then have "isxdigit d" using ds(2) by simp
  note df = isxdigit_facts [OF this]
  have sp: "dropWhile isspace (ds @ rest) = ds @ rest" using d df by simp
  have sg: "sign_split (ds @ rest) = (False, ds @ rest)" using d df by (simp add: sign_split_def)
  have nx: "b \<noteq> CHR ''x'' \<and> b \<noteq> CHR ''X''" if "ds' @ rest = b # r" for b r
  proof (cases ds')
    case Nil
    then show ?thesis using that rest by auto
  next
    case (Cons e es)
    then have "b = e" "isxdigit e" using that ds(2) d by auto
    then show ?thesis using isxdigit_facts by blast
  qed
  have st: "strip_0x (ds @ rest) = ds @ rest"
    using d nx by (auto simp: strip_0x_def split: list.splits)
  have "takeWhile isxdigit (ds @ rest) = ds"
    using ds(2) rest by (intro takeWhile_stops) (auto simp: stops_def)
  then show ?thesis using ds(1) by (simp add: scan_hex_def sp sg st)
qed

lemma scan_dec_digits:
  assumes ds: "ds \<noteq> []" "\<forall>c\<in>set ds. isdigit c" and rest: "stops isdigit rest"
    and sp: "\<forall>c\<in>set sp. isspace c"
  shows "scan_dec (sp @ ds @ rest) = Some (word_of_int (min (2 ^ 63 - 1) (int (decimal_value ds))), rest)"
proof -
  have hd: "isdigit (hd ds)" using ds by simp
  have "dropWhile isspace (sp @ ds @ rest) = ds @ rest"
    using sp dropWhile_isspace_digits [OF ds(1) hd] by (simp add: dropWhile_append2)
  moreover have "takeWhile isdigit (ds @ rest) = ds" using ds(2) rest by (rule takeWhile_stops)
  ultimately show ?thesis
    using ds(1) by (simp add: scan_dec_def sign_split_digits [OF ds(1) hd])
qed

section \<open>Scanning what was printed\<close>

lemma show_hex_empty_iff [simp]: "show_hex w n = [] \<longleftrightarrow> w = 0"
  by (cases w) auto

lemma scan_hex_space: "isspace c \<Longrightarrow> scan_hex (c # s) = scan_hex s"
  by (simp add: scan_hex_def)

lemma scan_dec_space: "isspace c \<Longrightarrow> scan_dec (c # s) = scan_dec s"
  by (simp add: scan_dec_def)

text \<open>
  One rule per directive, in the form in which a printed line meets it: blanks before a number
  are skipped, digits up to a delimiter are taken.
\<close>

lemma sscanf_steps:
  "sscanf (Blank # Hex a # D) s = sscanf (Hex a # D) s"
  "sscanf (Blank # Dec a # D) s = sscanf (Dec a # D) s"
  "sscanf (Hex a # D) (CHR '' '' # s) = sscanf (Hex a # D) s"
  "sscanf (Dec a # D) (CHR '' '' # s) = sscanf (Dec a # D) s"
  "sscanf [Blank, Str False n, Blank] s = []"
  by (simp_all add: scan_hex_space scan_dec_space isspace_def)
    (simp_all add: scan_hex_def scan_dec_def Let_def)

lemma sscanf_hex:
  assumes "ds \<noteq> []" "\<forall>c\<in>set ds. isxdigit c"
    and "stops (\<lambda>c. isxdigit c \<or> c = CHR ''x'' \<or> c = CHR ''X'') rest"
  shows "sscanf (Hex False # D) (ds @ rest) = sscanf D rest"
    and "sscanf (Hex True # D) (ds @ rest) =
      Number (if 2 ^ 64 \<le> hex_value ds then - 1 else word_of_nat (hex_value ds)) # sscanf D rest"
  using scan_hex_digits [OF assms] by simp_all

lemma sscanf_dec:
  assumes "ds \<noteq> []" "\<forall>c\<in>set ds. isdigit c" and "stops isdigit rest" and "\<forall>c\<in>set sp. isspace c"
  shows "sscanf (Dec False # D) (sp @ ds @ rest) = sscanf D rest"
    and "sscanf (Dec True # D) (sp @ ds @ rest) =
      Number (word_of_int (min (2 ^ 63 - 1) (int (decimal_value ds)))) # sscanf D rest"
  using scan_dec_digits [OF assms] by simp_all

lemma sscanf_dec_nat:
  assumes "stops isdigit rest" and "\<forall>c\<in>set sp. isspace c"
  shows "sscanf (Dec False # D) (sp @ show_nat n @ rest) = sscanf D rest"
    and "sscanf (Dec True # D) (sp @ show_nat n @ rest) =
      Number (word_of_int (min (2 ^ 63 - 1) (int n))) # sscanf D rest"
  using sscanf_dec [OF show_nat_nonempty set_show_nat assms] by simp_all

lemma sscanf_xdigits:
  assumes "ds \<noteq> []" "\<forall>c\<in>set ds. isxdigit c" "length ds \<le> n" "stops isxdigit rest"
  shows "sscanf (Set True n isxdigit # D) (ds @ rest) = Text ds # sscanf D rest"
    and "sscanf (Blank # Set True n isxdigit # D) (CHR '' '' # ds @ rest) = Text ds # sscanf D rest"
proof -
  have "takeWhile isxdigit (take n (ds @ rest)) = ds"
  proof -
    have "stops isxdigit (take (n - length ds) rest)"
      using assms(4) by (cases rest; cases "n - length ds") auto
    with assms(2,3) show ?thesis by (simp add: stops_takeWhile)
  qed
  then show set: "sscanf (Set True n isxdigit # D) (ds @ rest) = Text ds # sscanf D rest"
    using assms(1) by simp
  have "dropWhile isspace (CHR '' '' # ds @ rest) = ds @ rest"
    using assms(1,2) isxdigit_facts by (cases ds) (auto simp: isspace_def)
  with set show "sscanf (Blank # Set True n isxdigit # D) (CHR '' '' # ds @ rest) = Text ds # sscanf D rest"
    by simp
qed

end
