(* ===== verification/DB_Controller.thy ===== *)
theory DB_Controller
  imports String_Util Cxx_Scan Traffic_Storage
begin

text \<open>
  \<open>src/src/traffic/DBController.cpp\<close>: deposits into the database and queries of it. SQLite is a
  parameter: what executing a statement, running a prepared statement with its bindings, and reading
  text rows or a row of sums does to an abstract database. What the code relies on of it is the
  predicate \<open>sqlite_ok\<close> below. Every application has a table; the statements are text, written with
  \<open>snprintf\<close> into buffers of a fixed size.
\<close>

section \<open>The SQLite parameter\<close>

text \<open>
  \<open>sq_exec\<close> and \<open>sq_update\<close> return whether the result was \<open>SQLITE_OK\<close> or \<open>SQLITE_DONE\<close>; a value bound
  with \<open>sqlite3_bind_int\<close> has 32 bits. \<open>sq_texts\<close> are the first columns of the rows of a query,
  \<open>sq_row\<close> the columns of its first row as 64 bit integers.
\<close>

record 'db sqlite =
  sq_exec :: "string \<Rightarrow> 'db \<Rightarrow> bool \<times> 'db"
  sq_update :: "string \<Rightarrow> i32 list \<Rightarrow> 'db \<Rightarrow> bool \<times> 'db"
  sq_texts :: "string \<Rightarrow> 'db \<Rightarrow> string option list"
  sq_row :: "string \<Rightarrow> 'db \<Rightarrow> i64 list option"

section \<open>Statements\<close>

definition snprintf :: "nat \<Rightarrow> string \<Rightarrow> string" where
  "snprintf n s = take (n - 1) s"

text \<open>The conversion \<open>%s\<close>, which occurs once in each format, with a string that ends at a zero byte.\<close>

fun format_s :: "string \<Rightarrow> string \<Rightarrow> string" where
  "format_s name [] = []"
| "format_s name (c # cs) =
     (if c = CHR ''%'' \<and> cs \<noteq> [] \<and> hd cs = CHR ''s'' then takeWhile (\<lambda>x. x \<noteq> CHR 0x00) name @ tl cs
      else c # format_s name cs)"

definition sqlCreateTable :: string where
  "sqlCreateTable = ''CREATE TABLE IF NOT EXISTS \"%s\" (timestamp INT PRIMARY KEY NOT NULL, bytesRx INT DEFAULT 0, bytesTx INT DEFAULT 0, pktRxCount INT DEFAULT 0, pktTxCount INT DEFAULT 0);''"

definition sqlInsertValues :: string where
  "sqlInsertValues = ''INSERT INTO \"%s\" VALUES (?, ?, ?, ?, ?);''"

definition sqlGetApps :: string where
  "sqlGetApps = ''select name from sqlite_schema where type='' @ [CHR 0x27] @ ''table'' @ [CHR 0x27] @ '';''"

text \<open>The queries, in which the first \<open>snprintf\<close> has left \<open>%s\<close> for the table.\<close>

definition since_query :: "i64 \<Rightarrow> string" where
  "since_query now = snprintf 256
     (''select SUM(bytesRx), SUM(bytesTx), SUM(pktRxCount), SUM(pktTxCount) from \"%s\" where timestamp >= '' @
      to_string (sint now) @ '';'')"

definition between_query :: "i64 \<Rightarrow> i64 \<Rightarrow> string" where
  "between_query start end = snprintf 256
     (''select SUM(bytesRx), SUM(bytesTx), SUM(pktRxCount), SUM(pktTxCount) from \"%s\" where timestamp >= '' @
      to_string (sint start) @ '' and timestamp <= '' @ to_string (sint end) @ '';'')"

section \<open>Operations\<close>

text \<open>One turn of the loop over the traffic; the counts of bytes are truncated to 32 bits by the bindings.\<close>

definition insert_line :: "'db sqlite \<Rightarrow> i64 \<Rightarrow> string \<times> TrafficLine \<Rightarrow> 'db \<Rightarrow> 'db" where
  "insert_line sq now = (\<lambda>(name, line) db.
     if containsSemicolon name then db
     else
       let (_, db) = sq_update sq (snprintf 512 (format_s name sqlCreateTable)) [] db;
           (_, db) = sq_update sq (snprintf 512 (format_s name sqlInsertValues))
             [ucast now, ucast (bytesRx line), ucast (bytesTx line), pktRxCount line, pktTxCount line] db
       in db)"

definition insertApplicationTraffic :: "'db sqlite \<Rightarrow> i64 \<Rightarrow> (string \<times> TrafficLine) list \<Rightarrow> 'db \<Rightarrow> 'db" where
  "insertApplicationTraffic sq now traffic db =
     (let (ok, db) = sq_exec sq ''BEGIN TRANSACTION'' db
      in if \<not> ok then db
         else snd (sq_exec sq ''COMMIT TRANSACTION'' (fold (insert_line sq now) traffic db)))"

text \<open>
  What the other thread's queries on the same connection see in the middle of it: the rows of some of the
  lines. A query asks for the names of the tables first and then for one table after the other, so
  that they need not be the first lines.
\<close>

definition amid_insert :: "'db sqlite \<Rightarrow> i64 \<Rightarrow> string list \<Rightarrow> (string \<times> TrafficLine) list \<Rightarrow> 'db \<Rightarrow> 'db" where
  "amid_insert sq now seen traffic db =
     (let (ok, db) = sq_exec sq ''BEGIN TRANSACTION'' db
      in if \<not> ok then db
         else fold (insert_line sq now) [x \<leftarrow> traffic. fst x \<in> set seen] db)"

fun collect_names :: "string option list \<Rightarrow> string list" where
  "collect_names [] = []"
| "collect_names (None # ns) = collect_names ns"
| "collect_names (Some n # ns) = n # collect_names ns"

definition fetchApplicationNames :: "'db sqlite \<Rightarrow> 'db \<Rightarrow> string list" where
  "fetchApplicationNames sq db = collect_names (sq_texts sq sqlGetApps db)"

definition fetch_line :: "'db sqlite \<Rightarrow> string \<Rightarrow> 'db \<Rightarrow> string \<Rightarrow> TrafficLine" where
  "fetch_line sq query db name =
     (case sq_row sq (snprintf 256 (format_s name query)) db of
        Some row \<Rightarrow> \<lparr>bytesRx = row ! 0, bytesTx = row ! 1, pktRxCount = ucast (row ! 2), pktTxCount = ucast (row ! 3)\<rparr>
      | None \<Rightarrow> TrafficLine_init)"

fun fetch_loop :: "'db sqlite \<Rightarrow> string \<Rightarrow> 'db \<Rightarrow> string list \<Rightarrow> TrafficMap \<Rightarrow> TrafficMap" where
  "fetch_loop sq query db [] traffic = traffic"
| "fetch_loop sq query db (name # tables) traffic =
     (let line = fetch_line sq query db name
      in fetch_loop sq query db tables (if \<not> TrafficLine_empty line then traffic(name \<mapsto> line) else traffic))"

definition fetchTrafficWithQuery :: "'db sqlite \<Rightarrow> string \<Rightarrow> 'db \<Rightarrow> TrafficMap" where
  "fetchTrafficWithQuery sq query db = fetch_loop sq query db (fetchApplicationNames sq db) Map.empty"

definition fetchTrafficSince :: "'db sqlite \<Rightarrow> i64 \<Rightarrow> 'db \<Rightarrow> TrafficMap" where
  "fetchTrafficSince sq now db = fetchTrafficWithQuery sq (since_query now) db"

definition fetchTrafficBetween :: "'db sqlite \<Rightarrow> i64 \<Rightarrow> i64 \<Rightarrow> 'db \<Rightarrow> TrafficMap" where
  "fetchTrafficBetween sq start end db = fetchTrafficWithQuery sq (between_query start end) db"

section \<open>What the code relies on of SQLite\<close>

text \<open>
  SQLite compares the names of tables without regard to the case of ASCII letters. The tables of a
  database: for each name in lower case the name the table was created with and its rows, a timestamp
  and four numbers each.
\<close>

definition table_key :: "string \<Rightarrow> string" where
  "table_key name = map tolower name"

type_synonym table = "string \<times> (int \<times> int list) list"

type_synonym tables = "string \<rightharpoonup> table"

text \<open>
  The names the contract covers: printable ASCII, shorter than the buffers, without the characters that
  end the quoted name or the statement, and not reserved.
\<close>

definition plain_name :: "string \<Rightarrow> bool" where
  "plain_name name \<longleftrightarrow> name \<noteq> [] \<and> length name \<le> 64 \<and> take 7 (table_key name) \<noteq> ''sqlite_'' \<and>
     (\<forall>c\<in>set name. of_char c \<in> {32..<127 :: nat} \<and> c \<noteq> CHR 0x22 \<and> c \<noteq> CHR '';'')"

definition create_sql :: "string \<Rightarrow> string" where
  "create_sql name = ''CREATE TABLE IF NOT EXISTS \"'' @ name @
     ''\" (timestamp INT PRIMARY KEY NOT NULL, bytesRx INT DEFAULT 0, bytesTx INT DEFAULT 0, pktRxCount INT DEFAULT 0, pktTxCount INT DEFAULT 0);''"

definition insert_sql :: "string \<Rightarrow> string" where
  "insert_sql name = ''INSERT INTO \"'' @ name @ ''\" VALUES (?, ?, ?, ?, ?);''"

definition sums_sql :: "string \<Rightarrow> string \<Rightarrow> string" where
  "sums_sql name cond =
     ''select SUM(bytesRx), SUM(bytesTx), SUM(pktRxCount), SUM(pktTxCount) from \"'' @ name @ ''\" where '' @ cond @ '';''"

definition since_cond :: "int \<Rightarrow> string" where
  "since_cond t = ''timestamp >= '' @ to_string t"

definition between_cond :: "int \<Rightarrow> int \<Rightarrow> string" where
  "between_cond t u = since_cond t @ '' and timestamp <= '' @ to_string u"

definition column_sum :: "(int \<Rightarrow> bool) \<Rightarrow> (int \<times> int list) list \<Rightarrow> nat \<Rightarrow> int" where
  "column_sum P rs i = sum_list (map (\<lambda>(t, cols). if P t then cols ! i else 0) rs)"

definition sums_fit :: "(int \<Rightarrow> bool) \<Rightarrow> (int \<times> int list) list \<Rightarrow> bool" where
  "sums_fit P rs \<longleftrightarrow> (\<forall>i\<in>{0..<4}. - (2 ^ 63) \<le> column_sum P rs i \<and> column_sum P rs i < 2 ^ 63)"

definition sums_row :: "(int \<Rightarrow> bool) \<Rightarrow> (int \<times> int list) list \<Rightarrow> i64 list" where
  "sums_row P rs = map (\<lambda>i. word_of_int (column_sum P rs i)) [0..<4]"

text \<open>A row, unless there is one with its primary key.\<close>

definition add_row :: "int \<Rightarrow> int list \<Rightarrow> table \<Rightarrow> table" where
  "add_row t cols = (\<lambda>(m, rs). (m, if t \<in> fst ` set rs then rs else rs @ [(t, cols)]))"

text \<open>
  SQLite's documented behaviour on these statements, while no I/O error occurs; \<open>idle\<close> says that no
  transaction is open. A transaction does not change the tables by itself; creating a table that exists
  does nothing; a row is inserted unless its primary key is there; the schema lists each table once; and
  a sum is the sum of the selected rows, 0 as an integer when there is none, as long as it fits 64 bits.
\<close>

definition transactions_ok :: "'db sqlite \<Rightarrow> ('db \<Rightarrow> bool) \<Rightarrow> ('db \<Rightarrow> tables) \<Rightarrow> bool" where
  "transactions_ok sq idle tables \<longleftrightarrow> (\<forall>db.
     (let (ok, db') = sq_exec sq ''BEGIN TRANSACTION'' db
      in idle db \<longrightarrow> ok \<and> \<not> idle db' \<and> tables db' = tables db) \<and>
     (let (ok, db') = sq_exec sq ''COMMIT TRANSACTION'' db
      in \<not> idle db \<longrightarrow> ok \<and> idle db' \<and> tables db' = tables db))"

definition create_ok :: "'db sqlite \<Rightarrow> ('db \<Rightarrow> bool) \<Rightarrow> ('db \<Rightarrow> tables) \<Rightarrow> bool" where
  "create_ok sq idle tables \<longleftrightarrow> (\<forall>name db. plain_name name \<longrightarrow>
     (let db' = snd (sq_update sq (create_sql name) [] db)
      in idle db' = idle db \<and>
        tables db' = (case tables db (table_key name) of
          None \<Rightarrow> (tables db)(table_key name \<mapsto> (name, []))
        | Some _ \<Rightarrow> tables db)))"

definition insert_ok :: "'db sqlite \<Rightarrow> ('db \<Rightarrow> bool) \<Rightarrow> ('db \<Rightarrow> tables) \<Rightarrow> bool" where
  "insert_ok sq idle tables \<longleftrightarrow> (\<forall>name db e t a b c d. plain_name name \<and> tables db (table_key name) = Some e \<longrightarrow>
     (let db' = snd (sq_update sq (insert_sql name) [t, a, b, c, d] db)
      in idle db' = idle db \<and>
        tables db' = (tables db)(table_key name \<mapsto> add_row (sint t) (map sint [a, b, c, d]) e)))"

definition names_ok :: "'db sqlite \<Rightarrow> ('db \<Rightarrow> tables) \<Rightarrow> bool" where
  "names_ok sq tables \<longleftrightarrow> (\<forall>db. distinct (sq_texts sq sqlGetApps db) \<and>
     (\<forall>n. Some n \<in> set (sq_texts sq sqlGetApps db) \<longleftrightarrow> (\<exists>rs. tables db (table_key n) = Some (n, rs))) \<and>
     (\<forall>k e. tables db k = Some e \<longrightarrow> table_key (fst e) = k))"

definition sums_ok :: "'db sqlite \<Rightarrow> ('db \<Rightarrow> tables) \<Rightarrow> bool" where
  "sums_ok sq tables \<longleftrightarrow> (\<forall>name db e (t :: i64) (u :: i64). plain_name name \<and> tables db (table_key name) = Some e \<longrightarrow>
     (sums_fit (\<lambda>x. sint t \<le> x) (snd e) \<longrightarrow>
       sq_row sq (sums_sql name (since_cond (sint t))) db = Some (sums_row (\<lambda>x. sint t \<le> x) (snd e))) \<and>
     (sums_fit (\<lambda>x. sint t \<le> x \<and> x \<le> sint u) (snd e) \<longrightarrow>
       sq_row sq (sums_sql name (between_cond (sint t) (sint u))) db =
         Some (sums_row (\<lambda>x. sint t \<le> x \<and> x \<le> sint u) (snd e))))"

definition sqlite_ok :: "'db sqlite \<Rightarrow> ('db \<Rightarrow> bool) \<Rightarrow> ('db \<Rightarrow> tables) \<Rightarrow> bool" where
  "sqlite_ok sq idle tables \<longleftrightarrow> transactions_ok sq idle tables \<and> create_ok sq idle tables \<and>
     insert_ok sq idle tables \<and> names_ok sq tables \<and> sums_ok sq tables"

section \<open>The statements fit their buffers\<close>

lemma plain_chars:
  assumes "plain_name name"
  shows "CHR 0x22 \<notin> set name" "CHR '';'' \<notin> set name" "CHR 0x00 \<notin> set name"
proof -
  show "CHR 0x22 \<notin> set name" "CHR '';'' \<notin> set name" using assms by (auto simp: plain_name_def)
  have "\<forall>c\<in>set name. of_char c \<noteq> (0 :: nat)" using assms by (fastforce simp: plain_name_def)
  then show "CHR 0x00 \<notin> set name" by auto
qed

lemma plain_c_str: "plain_name name \<Longrightarrow> takeWhile (\<lambda>x. x \<noteq> CHR 0x00) name = name"
  by (rule takeWhile_no_zero, rule plain_chars)

lemma format_s_prefix:
  assumes "CHR ''%'' \<notin> set pre"
  shows "format_s name (pre @ CHR ''%'' # CHR ''s'' # post) = pre @ takeWhile (\<lambda>x. x \<noteq> CHR 0x00) name @ post"
  using assms by (induction pre) auto

lemma snprintf_fits: "length s < n \<Longrightarrow> snprintf n s = s"
  by (simp add: snprintf_def)

lemma plain_length: "plain_name name \<Longrightarrow> length name \<le> 64"
  by (simp add: plain_name_def)

lemma create_statement:
  assumes "plain_name name"
  shows "snprintf 512 (format_s name sqlCreateTable) = create_sql name"
proof -
  have "format_s name sqlCreateTable = create_sql name"
    by (simp add: sqlCreateTable_def create_sql_def plain_c_str [OF assms])
  moreover have "length (create_sql name) < 512"
    using plain_length [OF assms] by (simp add: create_sql_def)
  ultimately show ?thesis by (simp add: snprintf_fits)
qed

lemma insert_statement:
  assumes "plain_name name"
  shows "snprintf 512 (format_s name sqlInsertValues) = insert_sql name"
proof -
  have "format_s name sqlInsertValues = insert_sql name"
    by (simp add: sqlInsertValues_def insert_sql_def plain_c_str [OF assms])
  moreover have "length (insert_sql name) < 512"
    using plain_length [OF assms] by (simp add: insert_sql_def)
  ultimately show ?thesis by (simp add: snprintf_fits)
qed

text \<open>A 64 bit number has at most 20 characters.\<close>

lemma length_i64: "length (to_string (sint (t :: i64))) \<le> 20"
proof -
  have "- (2 ^ 63) \<le> sint t" "sint t < 2 ^ 63"
    using sint_greater_eq [of t] sint_less [of t] by simp_all
  then have "nat (- sint t) < 10 ^ Suc 18" "nat (sint t) < 10 ^ Suc 18" by simp_all
  from this [THEN length_show_nat] show ?thesis by (simp add: to_string_def)
qed

definition sums_prefix :: string where
  "sums_prefix = ''select SUM(bytesRx), SUM(bytesTx), SUM(pktRxCount), SUM(pktTxCount) from \"''"

lemma sums_statement:
  assumes "plain_name name" "length cond \<le> 80"
  shows "snprintf 256 (format_s name (snprintf 256 (sums_prefix @ ''%s\" where '' @ cond @ '';''))) = sums_sql name cond"
proof -
  have "snprintf 256 (sums_prefix @ ''%s\" where '' @ cond @ '';'') = sums_prefix @ ''%s\" where '' @ cond @ '';''"
    using assms(2) by (intro snprintf_fits) (simp add: sums_prefix_def)
  moreover have "format_s name (sums_prefix @ ''%s\" where '' @ cond @ '';'') = sums_sql name cond"
    using format_s_prefix [of sums_prefix name "''\" where '' @ cond @ '';''"] plain_c_str [OF assms(1)]
    by (simp add: sums_prefix_def sums_sql_def)
  moreover have "length (sums_sql name cond) < 256"
    using plain_length [OF assms(1)] assms(2) by (simp add: sums_sql_def)
  ultimately show ?thesis by (simp add: snprintf_fits)
qed

lemma query_statements:
  assumes "plain_name name"
  shows "snprintf 256 (format_s name (since_query t)) = sums_sql name (since_cond (sint t))"
    and "snprintf 256 (format_s name (between_query t u)) = sums_sql name (between_cond (sint t) (sint u))"
proof -
  have "since_query t = snprintf 256 (sums_prefix @ ''%s\" where '' @ since_cond (sint t) @ '';'')"
    "between_query t u = snprintf 256 (sums_prefix @ ''%s\" where '' @ between_cond (sint t) (sint u) @ '';'')"
    by (simp_all add: since_query_def between_query_def sums_prefix_def since_cond_def between_cond_def)
  moreover have "length (since_cond (sint t)) \<le> 80" "length (between_cond (sint t) (sint u)) \<le> 80"
    using length_i64 [of t] length_i64 [of u] by (simp_all add: since_cond_def between_cond_def)
  ultimately show "snprintf 256 (format_s name (since_query t)) = sums_sql name (since_cond (sint t))"
    "snprintf 256 (format_s name (between_query t u)) = sums_sql name (between_cond (sint t) (sint u))"
    using sums_statement [OF assms] by simp_all
qed

section \<open>Deposits\<close>

lemma sqlite_ok_begin:
  assumes "sqlite_ok sq idle tables" "idle db"
  obtains db' where "sq_exec sq ''BEGIN TRANSACTION'' db = (True, db')" "\<not> idle db'" "tables db' = tables db"
proof -
  obtain ok db' where b: "sq_exec sq ''BEGIN TRANSACTION'' db = (ok, db')" by fastforce
  from assms(1) have "transactions_ok sq idle tables" by (simp add: sqlite_ok_def)
  then have "let (ok, db') = sq_exec sq ''BEGIN TRANSACTION'' db in idle db \<longrightarrow> ok \<and> \<not> idle db' \<and> tables db' = tables db"
    unfolding transactions_ok_def by blast
  with b assms(2) that show ?thesis by simp
qed

lemma sqlite_ok_commit:
  assumes "sqlite_ok sq idle tables" "\<not> idle db"
  shows "idle (snd (sq_exec sq ''COMMIT TRANSACTION'' db))" "tables (snd (sq_exec sq ''COMMIT TRANSACTION'' db)) = tables db"
proof -
  from assms(1) have "transactions_ok sq idle tables" by (simp add: sqlite_ok_def)
  then have "let (ok, db') = sq_exec sq ''COMMIT TRANSACTION'' db in \<not> idle db \<longrightarrow> ok \<and> idle db' \<and> tables db' = tables db"
    unfolding transactions_ok_def by blast
  with assms(2) show "idle (snd (sq_exec sq ''COMMIT TRANSACTION'' db))" "tables (snd (sq_exec sq ''COMMIT TRANSACTION'' db)) = tables db"
    by (simp_all add: case_prod_beta Let_def)
qed

lemma sqlite_ok_create:
  assumes "sqlite_ok sq idle tables" "plain_name name"
  shows "idle (snd (sq_update sq (create_sql name) [] db)) = idle db"
    "tables (snd (sq_update sq (create_sql name) [] db)) =
      (case tables db (table_key name) of None \<Rightarrow> (tables db)(table_key name \<mapsto> (name, [])) | Some _ \<Rightarrow> tables db)"
proof -
  from assms(1) have "create_ok sq idle tables" by (simp add: sqlite_ok_def)
  from this [unfolded create_ok_def Let_def] assms(2)
  show "idle (snd (sq_update sq (create_sql name) [] db)) = idle db"
    "tables (snd (sq_update sq (create_sql name) [] db)) =
      (case tables db (table_key name) of None \<Rightarrow> (tables db)(table_key name \<mapsto> (name, [])) | Some _ \<Rightarrow> tables db)"
    by blast+
qed

lemma sqlite_ok_insert:
  assumes "sqlite_ok sq idle tables" "plain_name name" "tables db (table_key name) = Some e"
  shows "idle (snd (sq_update sq (insert_sql name) [t, a, b, c, d] db)) = idle db"
    "tables (snd (sq_update sq (insert_sql name) [t, a, b, c, d] db)) =
      (tables db)(table_key name \<mapsto> add_row (sint t) (map sint [a, b, c, d]) e)"
proof -
  from assms(1) have "insert_ok sq idle tables" by (simp add: sqlite_ok_def)
  from this [unfolded insert_ok_def Let_def] assms(2,3)
  show "idle (snd (sq_update sq (insert_sql name) [t, a, b, c, d] db)) = idle db"
    "tables (snd (sq_update sq (insert_sql name) [t, a, b, c, d] db)) =
      (tables db)(table_key name \<mapsto> add_row (sint t) (map sint [a, b, c, d]) e)"
    by blast+
qed

text \<open>The columns of a deposited line: the counts of bytes truncated to 32 bits.\<close>

definition deposited_columns :: "TrafficLine \<Rightarrow> int list" where
  "deposited_columns line =
     map sint [ucast (bytesRx line) :: i32, ucast (bytesTx line), pktRxCount line, pktTxCount line]"

definition table_of :: "string \<Rightarrow> table option \<Rightarrow> table" where
  "table_of name t = (case t of None \<Rightarrow> (name, []) | Some e \<Rightarrow> e)"

definition deposit_row :: "i64 \<Rightarrow> string \<Rightarrow> TrafficLine \<Rightarrow> table option \<Rightarrow> table" where
  "deposit_row now name line t = add_row (sint (ucast now :: i32)) (deposited_columns line) (table_of name t)"

lemma insert_line_effect:
  assumes ok: "sqlite_ok sq idle tables" and name: "plain_name name"
  shows "idle (insert_line sq now (name, line) db) = idle db"
    "tables (insert_line sq now (name, line) db) =
      (tables db)(table_key name \<mapsto> deposit_row now name line (tables db (table_key name)))"
proof -
  let ?db = "snd (sq_update sq (create_sql name) [] db)"
  let ?db' = "snd (sq_update sq (insert_sql name)
      [ucast now, ucast (bytesRx line), ucast (bytesTx line), pktRxCount line, pktTxCount line] ?db)"
  have step: "insert_line sq now (name, line) db = ?db'"
    using plain_chars(2) [OF name]
    by (simp add: insert_line_def create_statement [OF name] insert_statement [OF name] containsSemicolon_iff case_prod_beta)
  have t: "tables ?db = (tables db)(table_key name \<mapsto> table_of name (tables db (table_key name)))"
    using sqlite_ok_create(2) [OF ok name, of db] by (auto simp: table_of_def split: option.splits)
  then have "tables ?db (table_key name) = Some (table_of name (tables db (table_key name)))" by simp
  note ins = sqlite_ok_insert [OF ok name this]
  show "idle (insert_line sq now (name, line) db) = idle db"
    using ins(1) sqlite_ok_create(1) [OF ok name, of db] by (simp add: step)
  show "tables (insert_line sq now (name, line) db) =
      (tables db)(table_key name \<mapsto> deposit_row now name line (tables db (table_key name)))"
    unfolding step ins(2) t by (simp add: deposit_row_def deposited_columns_def)
qed

lemma insert_line_skipped: "CHR '';'' \<in> set name \<Longrightarrow> insert_line sq now (name, line) db = db"
  by (simp add: insert_line_def containsSemicolon_iff)

definition depositable :: "(string \<times> TrafficLine) list \<Rightarrow> bool" where
  "depositable traffic \<longleftrightarrow> (\<forall>x\<in>set traffic. CHR '';'' \<in> set (fst x) \<or> plain_name (fst x))"

text \<open>The first application of the traffic whose table is the one with the key.\<close>

definition first_for :: "string \<Rightarrow> (string \<times> TrafficLine) list \<Rightarrow> (string \<times> TrafficLine) option" where
  "first_for k traffic = find (\<lambda>x. CHR '';'' \<notin> set (fst x) \<and> table_key (fst x) = k) traffic"

definition after_deposit :: "i64 \<Rightarrow> (string \<times> TrafficLine) list \<Rightarrow> tables \<Rightarrow> tables" where
  "after_deposit now traffic tabs = (\<lambda>k. case first_for k traffic of
     None \<Rightarrow> tabs k
   | Some (name, line) \<Rightarrow> Some (deposit_row now name line (tabs k)))"

lemma deposit_row_again [simp]:
  "deposit_row now name' line' (Some (deposit_row now name line t)) = deposit_row now name line t"
  by (simp add: deposit_row_def add_row_def table_of_def case_prod_beta)

lemma insert_lines_effect:
  assumes "sqlite_ok sq idle tables" "depositable traffic"
  shows "idle (fold (insert_line sq now) traffic db) = idle db \<and>
    tables (fold (insert_line sq now) traffic db) = after_deposit now traffic (tables db)"
  using assms(2)
proof (induction traffic arbitrary: db)
  case (Cons x traffic)
  obtain n line where x: "x = (n, line)" by fastforce
  from Cons.prems have "depositable traffic" by (simp add: depositable_def)
  note IH = Cons.IH [OF this, of "insert_line sq now x db"]
  show ?case
  proof (cases "CHR '';'' \<in> set n")
    case True
    with IH show ?thesis by (simp add: x insert_line_skipped after_deposit_def first_for_def)
  next
    case False
    with Cons.prems x have "plain_name n" by (simp add: depositable_def)
    with IH False show ?thesis
      by (auto simp: x insert_line_effect [OF assms(1)] after_deposit_def first_for_def split: option.split)
  qed
qed (simp add: after_deposit_def first_for_def)

lemma deposit_effect:
  assumes ok: "sqlite_ok sq idle tables" and "idle db" "depositable traffic"
  shows "idle (insertApplicationTraffic sq now traffic db)"
    "tables (insertApplicationTraffic sq now traffic db) = after_deposit now traffic (tables db)"
proof -
  obtain db1 where db1: "sq_exec sq ''BEGIN TRANSACTION'' db = (True, db1)" "\<not> idle db1" "tables db1 = tables db"
    using sqlite_ok_begin [OF ok assms(2)] .
  note lines = insert_lines_effect [OF ok assms(3), of now db1]
  with db1(2) have "\<not> idle (fold (insert_line sq now) traffic db1)" by simp
  from sqlite_ok_commit [OF ok this] lines db1
  show "idle (insertApplicationTraffic sq now traffic db)"
    "tables (insertApplicationTraffic sq now traffic db) = after_deposit now traffic (tables db)"
    by (simp_all add: insertApplicationTraffic_def)
qed

section \<open>Queries\<close>

lemma sqlite_ok_names:
  assumes "sqlite_ok sq idle tables"
  shows "Some n \<in> set (sq_texts sq sqlGetApps db) \<longleftrightarrow> (\<exists>rs. tables db (table_key n) = Some (n, rs))"
  using assms unfolding sqlite_ok_def names_ok_def by blast

lemma set_collect_names [simp]: "n \<in> set (collect_names ns) \<longleftrightarrow> Some n \<in> set ns"
  by (induction ns rule: collect_names.induct) auto

lemma fetch_loop_eq:
  "fetch_loop sq query db names traffic n =
     (if n \<in> set names \<and> \<not> TrafficLine_empty (fetch_line sq query db n) then Some (fetch_line sq query db n)
      else traffic n)"
  by (induction names arbitrary: traffic) (auto simp: Let_def)

text \<open>The sums over the rows that a query selects, as a line.\<close>

definition sum_line :: "(int \<Rightarrow> bool) \<Rightarrow> (int \<times> int list) list \<Rightarrow> TrafficLine" where
  "sum_line P rs = \<lparr>bytesRx = word_of_int (column_sum P rs 0), bytesTx = word_of_int (column_sum P rs 1),
     pktRxCount = word_of_int (column_sum P rs 2), pktTxCount = word_of_int (column_sum P rs 3)\<rparr>"

definition summed :: "(int \<Rightarrow> bool) \<Rightarrow> tables \<Rightarrow> TrafficMap" where
  "summed P tabs name = (case tabs (table_key name) of
     None \<Rightarrow> None
   | Some (m, rs) \<Rightarrow> if m = name \<and> \<not> TrafficLine_empty (sum_line P rs) then Some (sum_line P rs) else None)"

definition summable :: "(int \<Rightarrow> bool) \<Rightarrow> tables \<Rightarrow> bool" where
  "summable P tabs \<longleftrightarrow> (\<forall>e\<in>ran tabs. plain_name (fst e) \<and> sums_fit P (snd e))"

lemma ucast_of_int_64_32: "ucast (word_of_int i :: i64) = (word_of_int i :: i32)"
  by (rule bit_word_eqI) (simp add: bit_simps)

lemma sums_row_line:
  "\<lparr>bytesRx = sums_row P rs ! 0, bytesTx = sums_row P rs ! 1, pktRxCount = ucast (sums_row P rs ! 2),
     pktTxCount = ucast (sums_row P rs ! 3)\<rparr> = sum_line P rs"
  by (simp add: sums_row_def sum_line_def ucast_of_int_64_32 numeral_2_eq_2)

lemma fetch_summed:
  assumes ok: "sqlite_ok sq idle tables" and tabs: "summable P (tables db)"
    and row: "\<And>name e. plain_name name \<Longrightarrow> tables db (table_key name) = Some e \<Longrightarrow> sums_fit P (snd e) \<Longrightarrow>
      sq_row sq (snprintf 256 (format_s name query)) db = Some (sums_row P (snd e))"
  shows "fetchTrafficWithQuery sq query db = summed P (tables db)"
proof
  fix name
  have line: "fetch_line sq query db name = sum_line P rs" if "tables db (table_key name) = Some (name, rs)" for rs
  proof -
    from tabs ranI [of "tables db", OF that] have "plain_name name" "sums_fit P rs" by (auto simp: summable_def)
    with row [OF _ that] show ?thesis by (simp add: fetch_line_def sums_row_line [unfolded One_nat_def])
  qed
  show "fetchTrafficWithQuery sq query db name = summed P (tables db) name"
    by (auto simp: fetchTrafficWithQuery_def fetchApplicationNames_def fetch_loop_eq sqlite_ok_names [OF ok]
        summed_def line split: option.split)
qed

lemma fetch_since_summed:
  assumes ok: "sqlite_ok sq idle tables" and "summable (\<lambda>x. sint t \<le> x) (tables db)"
  shows "fetchTrafficSince sq t db = summed (\<lambda>x. sint t \<le> x) (tables db)"
  unfolding fetchTrafficSince_def
proof (rule fetch_summed [OF assms])
  fix name e
  assume a: "plain_name name" "tables db (table_key name) = Some e" "sums_fit (\<lambda>x. sint t \<le> x) (snd e)"
  have "sums_ok sq tables" using ok by (simp add: sqlite_ok_def)
  then show "sq_row sq (snprintf 256 (format_s name (since_query t))) db = Some (sums_row (\<lambda>x. sint t \<le> x) (snd e))"
    using a unfolding sums_ok_def query_statements(1) [OF a(1)] by blast
qed

lemma fetch_between_summed:
  assumes ok: "sqlite_ok sq idle tables" and "summable (\<lambda>x. sint t \<le> x \<and> x \<le> sint u) (tables db)"
  shows "fetchTrafficBetween sq t u db = summed (\<lambda>x. sint t \<le> x \<and> x \<le> sint u) (tables db)"
  unfolding fetchTrafficBetween_def
proof (rule fetch_summed [OF assms])
  fix name e
  assume a: "plain_name name" "tables db (table_key name) = Some e" "sums_fit (\<lambda>x. sint t \<le> x \<and> x \<le> sint u) (snd e)"
  have "sums_ok sq tables" using ok by (simp add: sqlite_ok_def)
  then show "sq_row sq (snprintf 256 (format_s name (between_query t u))) db =
      Some (sums_row (\<lambda>x. sint t \<le> x \<and> x \<le> sint u) (snd e))"
    using a unfolding sums_ok_def query_statements(2) [OF a(1)] by blast
qed

section \<open>A database in memory\<close>

text \<open>
  A database that satisfies the contract, for the examples: the tables in the order of their creation,
  and whether a transaction is open. It reads the statements.
\<close>

type_synonym mem_db = "bool \<times> table list"

definition mem_idle :: "mem_db \<Rightarrow> bool" where
  "mem_idle db \<longleftrightarrow> fst db"

definition mem_find :: "string \<Rightarrow> table list \<Rightarrow> table option" where
  "mem_find k ts = find (\<lambda>e. table_key (fst e) = k) ts"

definition mem_tables :: "mem_db \<Rightarrow> tables" where
  "mem_tables db k = mem_find k (snd db)"

fun mem_names :: "table list \<Rightarrow> string list" where
  "mem_names [] = []"
| "mem_names ((m, _) # ts) = m # filter (\<lambda>m'. table_key m' \<noteq> table_key m) (mem_names ts)"

definition quoted_name :: "string \<Rightarrow> string" where
  "quoted_name s = takeWhile (\<lambda>c. c \<noteq> CHR 0x22) (tl (dropWhile (\<lambda>c. c \<noteq> CHR 0x22) s))"

definition mem_exec :: "string \<Rightarrow> mem_db \<Rightarrow> bool \<times> mem_db" where
  "mem_exec s db =
     (if s = ''BEGIN TRANSACTION'' \<and> fst db then (True, False, snd db)
      else if s = ''COMMIT TRANSACTION'' \<and> \<not> fst db then (True, True, snd db)
      else (False, db))"

definition mem_update :: "string \<Rightarrow> i32 list \<Rightarrow> mem_db \<Rightarrow> bool \<times> mem_db" where
  "mem_update s vs db =
     (let name = quoted_name s; k = table_key name
      in if s = create_sql name then
           (True, fst db, if mem_find k (snd db) = None then snd db @ [(name, [])] else snd db)
         else if s = insert_sql name then
           (True, fst db, map (\<lambda>e. if table_key (fst e) = k then add_row (sint (hd vs)) (map sint (tl vs)) e else e) (snd db))
         else (False, db))"

definition mem_select :: "string \<Rightarrow> (int \<Rightarrow> bool) option" where
  "mem_select cond =
     (case scan_dec (drop 13 cond) of
        None \<Rightarrow> None
      | Some (t, rest) \<Rightarrow>
          (if rest = '';'' then Some (\<lambda>x. sint t \<le> x)
           else case scan_dec (drop 18 rest) of
             None \<Rightarrow> None
           | Some (u, _) \<Rightarrow> Some (\<lambda>x. sint t \<le> x \<and> x \<le> sint u)))"

definition mem_row :: "string \<Rightarrow> mem_db \<Rightarrow> i64 list option" where
  "mem_row s db =
     (let name = quoted_name s
      in case (mem_find (table_key name) (snd db), mem_select (drop (length sums_prefix + length name + 8) s)) of
           (Some (_, rs), Some P) \<Rightarrow> if sums_fit P rs then Some (sums_row P rs) else None
         | _ \<Rightarrow> None)"

definition mem_sqlite :: "mem_db sqlite" where
  "mem_sqlite = \<lparr>sq_exec = mem_exec, sq_update = mem_update,
     sq_texts = (\<lambda>s db. if s = sqlGetApps then map Some (mem_names (snd db)) else []), sq_row = mem_row\<rparr>"

lemma quoted_name:
  assumes "CHR 0x22 \<notin> set pre" "CHR 0x22 \<notin> set name"
  shows "quoted_name (pre @ CHR 0x22 # name @ CHR 0x22 # post) = name"
proof -
  have "dropWhile (\<lambda>c. c \<noteq> CHR 0x22) (pre @ CHR 0x22 # s) = CHR 0x22 # s" for s
    using assms(1) by (induction pre) auto
  moreover have "takeWhile (\<lambda>c. c \<noteq> CHR 0x22) (name @ CHR 0x22 # post) = name"
    using assms(2) by (induction name) auto
  ultimately show ?thesis by (simp add: quoted_name_def)
qed

lemma quoted_names:
  assumes "plain_name name"
  shows "quoted_name (create_sql name) = name" "quoted_name (insert_sql name) = name" "quoted_name (sums_sql name cond) = name"
  using quoted_name [of "''CREATE TABLE IF NOT EXISTS ''" name] quoted_name [of "''INSERT INTO ''" name]
    quoted_name [of "''select SUM(bytesRx), SUM(bytesTx), SUM(pktRxCount), SUM(pktTxCount) from ''" name]
    plain_chars(1) [OF assms]
  by (simp_all add: create_sql_def insert_sql_def sums_sql_def)

lemma insert_not_create: "insert_sql name \<noteq> create_sql name'"
  by (simp add: insert_sql_def create_sql_def)

lemma mem_find_append: "mem_find k (ts @ us) = (case mem_find k ts of None \<Rightarrow> mem_find k us | Some e \<Rightarrow> Some e)"
  by (induction ts) (simp_all add: mem_find_def)

lemma mem_find_update:
  assumes "\<And>e. fst (f e) = fst e"
  shows "mem_find k' (map (\<lambda>e. if table_key (fst e) = k then f e else e) ts) =
    (if k' = k then map_option f (mem_find k ts) else mem_find k' ts)"
  by (induction ts) (auto simp: mem_find_def assms)

lemma mem_find_key: "mem_find k ts = Some e \<Longrightarrow> table_key (fst e) = k"
  by (auto simp: mem_find_def find_Some_iff)

lemma set_mem_names: "m \<in> set (mem_names ts) \<longleftrightarrow> (\<exists>rs. mem_find (table_key m) ts = Some (m, rs))"
  by (induction ts rule: mem_names.induct) (auto simp: mem_find_def)

lemma distinct_mem_names: "distinct (mem_names ts)"
  by (induction ts rule: mem_names.induct) auto

lemma scan_dec_to_string:
  assumes "stops isdigit rest"
  shows "scan_dec (to_string (sint (t :: i64)) @ rest) = Some (t, rest)"
proof (cases "sint t < 0")
  case True
  have "- (2 ^ 63) \<le> sint t" using sint_greater_eq [of t] by simp
  with True show ?thesis
    using takeWhile_stops [OF set_show_nat assms]
    by (simp add: scan_dec_def to_string_def sign_split_def isspace_def)
next
  case False
  have "sint t < 2 ^ 63" using sint_less [of t] by simp
  with False show ?thesis
    using scan_dec_digits [OF show_nat_nonempty set_show_nat assms, of "[]" "nat (sint t)"]
    by (simp add: to_string_def)
qed

lemma mem_select_conds:
  "mem_select (since_cond (sint (t :: i64)) @ '';'') = Some (\<lambda>x. sint t \<le> x)"
  "mem_select (between_cond (sint t) (sint (u :: i64)) @ '';'') = Some (\<lambda>x. sint t \<le> x \<and> x \<le> sint u)"
  using scan_dec_to_string [of "'';''" t] scan_dec_to_string [of "'';''" u]
    scan_dec_to_string [of "'' and timestamp <= '' @ to_string (sint u) @ '';''" t]
  by (simp_all add: mem_select_def since_cond_def between_cond_def isdigit_def)

lemma mem_row_sums:
  assumes "plain_name name" "mem_find (table_key name) (snd db) = Some e" "mem_select (cond @ '';'') = Some P"
    and "sums_fit P (snd e)"
  shows "mem_row (sums_sql name cond) db = Some (sums_row P (snd e))"
proof -
  have "drop (length sums_prefix + length name + 8) (sums_sql name cond) = cond @ '';''"
  proof -
    have "sums_sql name cond = sums_prefix @ name @ ''\" where '' @ cond @ '';''"
      by (simp add: sums_sql_def sums_prefix_def)
    then show ?thesis by simp
  qed
  with assms show ?thesis
    by (simp add: mem_row_def quoted_names case_prod_beta)
qed

lemma mem_updates:
  assumes "plain_name name"
  shows "mem_update (create_sql name) [] db =
      (True, fst db, if mem_find (table_key name) (snd db) = None then snd db @ [(name, [])] else snd db)"
    and "mem_update (insert_sql name) vs db =
      (True, fst db, map (\<lambda>e. if table_key (fst e) = table_key name then add_row (sint (hd vs)) (map sint (tl vs)) e else e) (snd db))"
  using insert_not_create [of name name] by (simp_all add: mem_update_def Let_def quoted_names [OF assms])

lemma mem_find_single: "mem_find k [e] = (if table_key (fst e) = k then Some e else None)"
  by (simp add: mem_find_def)

lemma mem_create:
  assumes "plain_name name"
  shows "mem_tables (snd (mem_update (create_sql name) [] db)) = (case mem_tables db (table_key name) of
    None \<Rightarrow> (mem_tables db)(table_key name \<mapsto> (name, [])) | Some _ \<Rightarrow> mem_tables db)"
proof
  fix k
  show "mem_tables (snd (mem_update (create_sql name) [] db)) k = (case mem_tables db (table_key name) of
      None \<Rightarrow> (mem_tables db)(table_key name \<mapsto> (name, [])) | Some _ \<Rightarrow> mem_tables db) k"
    by (simp add: mem_updates [OF assms] mem_tables_def mem_find_append mem_find_single split: option.split)
qed

lemma mem_insert:
  assumes "plain_name name" "mem_tables db (table_key name) = Some e"
  shows "mem_tables (snd (mem_update (insert_sql name) vs db)) =
    (mem_tables db)(table_key name \<mapsto> add_row (sint (hd vs)) (map sint (tl vs)) e)"
proof
  fix k
  have "fst (add_row t cols e') = fst e'" for t cols e' by (simp add: add_row_def case_prod_beta)
  then show "mem_tables (snd (mem_update (insert_sql name) vs db)) k =
      ((mem_tables db)(table_key name \<mapsto> add_row (sint (hd vs)) (map sint (tl vs)) e)) k"
    using assms(2) by (simp add: mem_updates [OF assms(1)] mem_tables_def mem_find_update)
qed

lemma mem_update_idle: "mem_idle (snd (mem_update s vs db)) = mem_idle db"
  by (simp add: mem_update_def mem_idle_def Let_def)

lemma mem_sqlite_ok: "sqlite_ok mem_sqlite mem_idle mem_tables"
proof -
  have "transactions_ok mem_sqlite mem_idle mem_tables"
    by (simp add: transactions_ok_def mem_sqlite_def mem_exec_def mem_idle_def mem_tables_def fun_eq_iff)
  moreover have "create_ok mem_sqlite mem_idle mem_tables"
    by (simp add: create_ok_def Let_def mem_sqlite_def mem_update_idle mem_create)
  moreover have "insert_ok mem_sqlite mem_idle mem_tables"
    by (simp add: insert_ok_def Let_def mem_sqlite_def mem_update_idle mem_insert)
  moreover have "names_ok mem_sqlite mem_tables"
    by (simp add: names_ok_def mem_sqlite_def distinct_mem_names distinct_map mem_tables_def mem_find_key
        set_mem_names image_iff)
  moreover have "sums_ok mem_sqlite mem_tables"
    unfolding sums_ok_def mem_tables_def
    by (simp add: mem_sqlite_def mem_row_sums [OF _ _ mem_select_conds(1)] mem_row_sums [OF _ _ mem_select_conds(2)])
  ultimately show ?thesis by (simp add: sqlite_ok_def)
qed

section \<open>What is deposited and what is fetched\<close>

text \<open>
  C16. A deposit adds for each table one row with its time, the columns truncated to 32 bits: that of the
  first application whose name is the table's but for the case of letters. A name with a semicolon, a
  later one that differs in case, and a line for a time that is there already add nothing.
\<close>

theorem deposit_rows:
  assumes "sqlite_ok sq idle tables" "idle db" "depositable traffic"
  shows "idle (insertApplicationTraffic sq now traffic db) \<and>
    tables (insertApplicationTraffic sq now traffic db) = after_deposit now traffic (tables db)"
  using deposit_effect [OF assms] by simp

definition sample_traffic :: "(string \<times> TrafficLine) list" where
  "sample_traffic =
     [(''Curl'', \<lparr>bytesRx = 2 ^ 32 + 10, bytesTx = 20, pktRxCount = 3, pktTxCount = 4\<rparr>),
      (''curl'', \<lparr>bytesRx = 5, bytesTx = 5, pktRxCount = 5, pktTxCount = 5\<rparr>),
      (''x;y'', \<lparr>bytesRx = 5, bytesTx = 5, pktRxCount = 5, pktTxCount = 5\<rparr>)]"

definition sample_db :: mem_db where
  "sample_db = (True, [(''Curl'', [(5, [1, 2, 3, 4]), (6, [10, 20, 30, 40])])])"

lemma sample_db_names: "plain_name ''Curl''" "plain_name ''curl''" "plain_name ''wget''"
  "table_key ''Curl'' = ''curl''" "table_key ''curl'' = ''curl''" "table_key ''wget'' = ''wget''"
  by (simp_all add: plain_name_def table_key_def tolower_def isupper_def char_of_def bit_0)

theorem deposit_rows_witness:
  "mem_tables (insertApplicationTraffic mem_sqlite 7 sample_traffic (True, [])) ''curl'' =
    Some (''Curl'', [(7, [10, 20, 3, 4])])"
proof -
  have "depositable sample_traffic" by (simp add: depositable_def sample_traffic_def sample_db_names)
  from deposit_rows [OF mem_sqlite_ok _ this, of "(True, [])" 7] show ?thesis
    by (simp add: mem_idle_def after_deposit_def first_for_def sample_traffic_def sample_db_names deposit_row_def
        add_row_def table_of_def deposited_columns_def mem_tables_def mem_find_def)
qed

text \<open>
  C17. A query since or between timestamps delivers for each table, under the name it was created with,
  the sums of its rows in the range, both ends included, and leaves out the tables where all are 0.
\<close>

theorem fetch_sums:
  assumes "sqlite_ok sq idle tables"
    and "summable (\<lambda>x. sint t \<le> x) (tables db)" "summable (\<lambda>x. sint t \<le> x \<and> x \<le> sint u) (tables db)"
  shows "fetchTrafficSince sq t db = summed (\<lambda>x. sint t \<le> x) (tables db) \<and>
    fetchTrafficBetween sq t u db = summed (\<lambda>x. sint t \<le> x \<and> x \<le> sint u) (tables db)"
  using fetch_since_summed [OF assms(1,2)] fetch_between_summed [OF assms(1,3)] by simp

lemma sample_db_tables: "mem_tables sample_db = [''curl'' \<mapsto> (''Curl'', [(5, [1, 2, 3, 4]), (6, [10, 20, 30, 40])])]"
  by (simp add: fun_eq_iff mem_tables_def sample_db_def mem_find_def sample_db_names)

lemma column_sum_Cons [simp]: "column_sum P ((t, cols) # rs) i = (if P t then cols ! i else 0) + column_sum P rs i"
  by (simp add: column_sum_def)

lemma column_sum_Nil [simp]: "column_sum P [] i = 0"
  by (simp add: column_sum_def)

theorem fetch_sums_witness:
  "fetchTrafficSince mem_sqlite 6 sample_db ''Curl'' =
    Some \<lparr>bytesRx = 10, bytesTx = 20, pktRxCount = 30, pktTxCount = 40\<rparr> \<and>
   fetchTrafficBetween mem_sqlite 6 6 sample_db ''curl'' = None"
proof -
  have "sums_fit P [(5, [1, 2, 3, 4]), (6, [10, 20, 30, 40])]" for P
    by (simp add: sums_fit_def numeral_eq_Suc atLeastLessThanSuc)
  then have "summable P (mem_tables sample_db)" for P
    by (simp add: summable_def sample_db_tables sample_db_names)
  from fetch_sums [OF mem_sqlite_ok this this] show ?thesis
    by (simp add: sample_db_tables summed_def sample_db_names sum_line_def TrafficLine_empty_def)
qed

text \<open>
  Traffic that a database takes up without loss: the names differ in more than case, among themselves
  and from the names of other tables; no row has the time yet; and the counts of bytes stay below
  \<open>2 ^ 31\<close>.
\<close>

definition lossless :: "i64 \<Rightarrow> (string \<times> TrafficLine) list \<Rightarrow> tables \<Rightarrow> bool" where
  "lossless now traffic tabs \<longleftrightarrow>
     distinct (map (\<lambda>x. table_key (fst x)) traffic) \<and> distinct (map fst traffic) \<and>
     - (2 ^ 31) \<le> sint now \<and> sint now < 2 ^ 31 \<and>
     (\<forall>x\<in>set traffic. uint (bytesRx (snd x)) < 2 ^ 31 \<and> uint (bytesTx (snd x)) < 2 ^ 31) \<and>
     (\<forall>e\<in>ran tabs. plain_name (fst e) \<and> sint now \<notin> fst ` set (snd e)) \<and>
     (\<forall>x\<in>set traffic. case tabs (table_key (fst x)) of None \<Rightarrow> True | Some e \<Rightarrow> fst e = fst x)"

lemma column_sum_unselected: "(\<forall>r\<in>set rs. \<not> P (fst r)) \<Longrightarrow> column_sum P rs i = 0"
  by (induction rs) (auto simp: column_sum_def)

lemma column_sum_append_row: "column_sum P (rs @ [(t, cols)]) i = column_sum P rs i + (if P t then cols ! i else 0)"
  by (simp add: column_sum_def)

lemma first_for_member:
  assumes "distinct (map (\<lambda>x. table_key (fst x)) traffic)" "(n, line) \<in> set traffic" "CHR '';'' \<notin> set n"
  shows "first_for (table_key n) traffic = Some (n, line)"
  using assms
proof (induction traffic)
  case (Cons x traffic)
  show ?case
  proof (cases "x = (n, line)")
    case False
    with Cons.prems have "(n, line) \<in> set traffic" by auto
    then have key: "table_key n \<in> (\<lambda>x. table_key (fst x)) ` set traffic" by (rule rev_image_eqI) simp
    have "table_key (fst x) \<noteq> table_key n"
    proof
      assume "table_key (fst x) = table_key n"
      with key Cons.prems(1) show False by simp
    qed
    with Cons.IH Cons.prems \<open>(n, line) \<in> set traffic\<close> show ?thesis by (simp add: first_for_def)
  qed (simp add: first_for_def Cons.prems)
qed simp

lemma first_for_SomeD:
  assumes "first_for k traffic = Some (n, line)"
  shows "(n, line) \<in> set traffic" "table_key n = k" "CHR '';'' \<notin> set n"
  using assms unfolding first_for_def find_Some_iff by (metis fst_conv nth_mem)+

text \<open>The lines a query for one time finds after a lossless deposit at that time.\<close>

lemma deposited_line:
  assumes "uint (bytesRx line) < 2 ^ 31" "uint (bytesTx line) < 2 ^ 31" "\<forall>r\<in>set rs. \<not> P (fst r)" "P t"
  shows "sum_line P (rs @ [(t, deposited_columns line)]) = line" "sums_fit P (rs @ [(t, deposited_columns line)])"
proof -
  let ?rs = "rs @ [(t, deposited_columns line)]"
  have col: "column_sum P ?rs i = deposited_columns line ! i" for i
    using assms(3,4) by (simp add: column_sum_append_row column_sum_unselected)
  show "sum_line P ?rs = line"
    unfolding sum_line_def col using assms(1,2)
    by (simp add: deposited_columns_def sint_ucast_small numeral_2_eq_2 numeral_3_eq_3)
  have "- (2 ^ 63) \<le> sint (w :: i32) \<and> sint w < 2 ^ 63" for w
    using sint_greater_eq [of w] sint_less [of w] by simp
  then have "\<forall>c\<in>set (deposited_columns line). - (2 ^ 63) \<le> c \<and> c < 2 ^ 63"
    unfolding deposited_columns_def by simp
  moreover have "length (deposited_columns line) = 4" by (simp add: deposited_columns_def)
  ultimately show "sums_fit P ?rs" unfolding sums_fit_def col by simp
qed

lemma unselected_sums:
  assumes "\<forall>r\<in>set rs. \<not> P (fst r)"
  shows "TrafficLine_empty (sum_line P rs)" "sums_fit P rs"
  by (simp_all add: sum_line_def sums_fit_def column_sum_unselected [OF assms] TrafficLine_empty_def)

lemma lossless_table:
  assumes traffic: "depositable traffic" and l: "lossless now traffic tabs" and k: "after_deposit now traffic tabs k = Some (m, rs)"
    and P: "P = (\<lambda>x. sint now \<le> x \<and> x \<le> sint now)"
  shows "plain_name m \<and> sums_fit P rs \<and>
    (case first_for k traffic of None \<Rightarrow> TrafficLine_empty (sum_line P rs) | Some (n, line) \<Rightarrow> m = n \<and> sum_line P rs = line)"
proof -
  have old: "plain_name (fst e) \<and> (\<forall>r\<in>set (snd e). \<not> P (fst r))" if "tabs k = Some e" for e
    using l ranI [of tabs, OF that] by (force simp: lossless_def P)
  show ?thesis
  proof (cases "first_for k traffic")
    case None
    with k have "tabs k = Some (m, rs)" by (simp add: after_deposit_def)
    from old [OF this] None unselected_sums [of rs P] show ?thesis by simp
  next
    case (Some x)
    obtain n line where x: "x = (n, line)" by fastforce
    note ff = first_for_SomeD [OF Some [unfolded x]]
    have small: "uint (bytesRx line) < 2 ^ 31" "uint (bytesTx line) < 2 ^ 31"
      using l ff(1) by (force simp: lossless_def)+
    have now: "sint (ucast now :: i32) = sint now"
      using l by (simp add: lossless_def sint_ucast_i32)
    have "plain_name n" using traffic ff by (force simp: depositable_def)
    moreover obtain rs0 where "m = n" "rs = rs0 @ [(sint now, deposited_columns line)]" "\<forall>r\<in>set rs0. \<not> P (fst r)"
    proof (cases "tabs k")
      case None
      with k Some x now that [of "[]"] show thesis
        by (simp add: after_deposit_def deposit_row_def table_of_def add_row_def)
    next
      case (Some e)
      then have "fst e = n" using l ff(1,2) by (force simp: lossless_def)
      moreover have "sint now \<notin> fst ` set (snd e)" using old [OF Some] by (auto simp: P)
      ultimately show thesis
        using k Some \<open>first_for k traffic = Some x\<close> x now that [of "snd e"] old [OF Some]
        by (simp add: after_deposit_def deposit_row_def table_of_def add_row_def case_prod_beta)
    qed
    moreover have "P (sint now)" by (simp add: P)
    ultimately show ?thesis using deposited_line [OF small] Some x by simp
  qed
qed

lemma lossless_summable:
  assumes "depositable traffic" "lossless now traffic tabs"
  shows "summable (\<lambda>x. sint now \<le> x \<and> x \<le> sint now) (after_deposit now traffic tabs)"
  using lossless_table [OF assms _ refl] by (fastforce simp: summable_def ran_def)

lemma lossless_summed:
  assumes dep: "depositable traffic" and l: "lossless now traffic tabs"
    and P: "P = (\<lambda>x. sint now \<le> x \<and> x \<le> sint now)"
  shows "summed P (after_deposit now traffic tabs) name =
    (case map_of traffic name of
       None \<Rightarrow> None
     | Some line \<Rightarrow> if CHR '';'' \<in> set name \<or> TrafficLine_empty line then None else Some line)"
proof -
  let ?k = "table_key name"
  let ?t = "after_deposit now traffic tabs"
  have dist: "distinct (map (\<lambda>x. table_key (fst x)) traffic)" "distinct (map fst traffic)"
    using l by (simp_all add: lossless_def)
  show ?thesis
  proof (cases "map_of traffic name")
    case None
    then have no: "(name, line) \<notin> set traffic" for line using dist(2) by force
    have "summed P ?t name = None"
    proof (cases "?t ?k")
      case (Some e)
      obtain m rs where e: "e = (m, rs)" by fastforce
      with lossless_table [OF dep l Some [unfolded e] P] no first_for_SomeD(1) [of ?k traffic] show ?thesis
        by (auto simp: summed_def Some split: option.splits)
    qed (simp add: summed_def)
    with None show ?thesis by simp
  next
    case (Some line)
    then have mem: "(name, line) \<in> set traffic" by (rule map_of_SomeD)
    show ?thesis
    proof (cases "CHR '';'' \<in> set name")
      case True
      have "\<not> plain_name name" using True plain_chars(2) by blast
      then have "summed P ?t name = None"
        using lossless_table [OF dep l _ P, of ?k] by (fastforce simp: summed_def split: option.split)
      with Some True show ?thesis by simp
    next
      case False
      have ff: "first_for ?k traffic = Some (name, line)" by (rule first_for_member [OF dist(1) mem False])
      then obtain m rs where e: "?t ?k = Some (m, rs)" by (fastforce simp: after_deposit_def)
      with lossless_table [OF dep l e P] ff False Some show ?thesis by (simp add: summed_def)
    qed
  qed
qed

lemma deposited_fetched:
  assumes "sqlite_ok sq idle tables" "idle db" "depositable traffic" "lossless now traffic (tables db)"
  shows "fetchTrafficBetween sq now now (insertApplicationTraffic sq now traffic db) =
    (\<lambda>name. case map_of traffic name of
       None \<Rightarrow> None
     | Some line \<Rightarrow> if CHR '';'' \<in> set name \<or> TrafficLine_empty line then None else Some line)"
  by (simp add: fun_eq_iff deposit_effect [OF assms(1-3)] lossless_summed [OF assms(3,4) refl]
      fetch_between_summed [OF assms(1)] lossless_summable [OF assms(3,4)])

text \<open>
  C9. What is deposited comes back: a query for the time of the deposit delivers exactly the deposited
  lines, but the empty ones and those whose name has a semicolon, whatever else the database holds.
\<close>

theorem deposit_then_fetch:
  assumes "sqlite_ok sq idle tables" "idle db" "depositable traffic" "lossless now traffic (tables db)"
  shows "fetchTrafficBetween sq now now (insertApplicationTraffic sq now traffic db) =
    (\<lambda>name. case map_of traffic name of
       None \<Rightarrow> None
     | Some line \<Rightarrow> if CHR '';'' \<in> set name \<or> TrafficLine_empty line then None else Some line)"
  by (rule deposited_fetched [OF assms])

theorem deposit_then_fetch_witness:
  "fetchTrafficBetween mem_sqlite 7 7
    (insertApplicationTraffic mem_sqlite 7
      [(''Curl'', \<lparr>bytesRx = 10, bytesTx = 20, pktRxCount = 3, pktTxCount = 4\<rparr>), (''wget'', TrafficLine_init)] sample_db) =
   [''Curl'' \<mapsto> \<lparr>bytesRx = 10, bytesTx = 20, pktRxCount = 3, pktTxCount = 4\<rparr>]"
proof -
  let ?traffic = "[(''Curl'', \<lparr>bytesRx = 10, bytesTx = 20, pktRxCount = 3, pktTxCount = 4\<rparr>), (''wget'', TrafficLine_init)]"
  have "depositable ?traffic" by (simp add: depositable_def sample_db_names)
  moreover have "lossless 7 ?traffic (mem_tables sample_db)"
    by (simp add: lossless_def sample_db_names sample_db_tables TrafficLine_init_def)
  moreover have "mem_idle sample_db" by (simp add: mem_idle_def sample_db_def)
  ultimately show ?thesis
    using deposit_then_fetch [OF mem_sqlite_ok, of sample_db ?traffic 7]
    by (simp add: fun_eq_iff TrafficLine_empty_def TrafficLine_init_def)
qed

end
