(* ===== verification/Packet_Hash.thy ===== *)
theory Packet_Hash
  imports Packet
begin

text \<open>
  \<open>src/src/net/PacketHash.hpp\<close> and \<open>.cpp\<close>: the key that connects a packet with the socket it
  belongs to, built from a packet or from a line of a socket table.
\<close>

section \<open>The class\<close>

record PacketHash =
  ip1 :: u32
  port1 :: u16
  ip2 :: u32
  port2 :: u16

definition PacketHash_new :: PacketHash where
  "PacketHash_new = \<lparr>ip1 = 0, port1 = 0, ip2 = 0, port2 = 0\<rparr>"

definition PacketHash_of_socket :: "u32 \<Rightarrow> u16 \<Rightarrow> u32 \<Rightarrow> u16 \<Rightarrow> PacketHash" where
  "PacketHash_of_socket localip localport remoteip remoteport =
     \<lparr>ip1 = localip, port1 = localport, ip2 = remoteip, port2 = remoteport\<rparr>"

definition PacketHash_of_port :: "u16 \<Rightarrow> PacketHash" where
  "PacketHash_of_port localport = \<lparr>ip1 = 0, port1 = localport, ip2 = 0, port2 = 0\<rparr>"

definition PacketHash_of_packet :: "Packet \<Rightarrow> PacketHash" where
  "PacketHash_of_packet pkt =
     (if direction pkt = Outgoing then
        let h = PacketHash_new\<lparr>port1 := sport pkt\<rparr>
        in if pkt_type pkt = UDP then h
           else h\<lparr>ip1 := sip pkt, ip2 := dip pkt, port2 := dport pkt\<rparr>
      else
        let h = PacketHash_new\<lparr>port1 := dport pkt\<rparr>
        in if pkt_type pkt = UDP then h
           else h\<lparr>ip1 := dip pkt, ip2 := sip pkt, port2 := sport pkt\<rparr>)"

definition PacketHash_eq :: "PacketHash \<Rightarrow> PacketHash \<Rightarrow> bool" where
  "PacketHash_eq a b \<longleftrightarrow> ip1 a = ip1 b \<and> port1 a = port1 b \<and> ip2 a = ip2 b \<and> port2 a = port2 b"

text \<open>
  \<open>std::hash\<close> of the key, from the library's hashes of the fields; a shift binds stronger than
  the exclusive or, so the last shift applies to the last summand alone.
\<close>

definition PacketHash_hash :: "(u32 \<Rightarrow> u64) \<Rightarrow> (u16 \<Rightarrow> u64) \<Rightarrow> PacketHash \<Rightarrow> u64" where
  "PacketHash_hash hash32 hash16 p =
     drop_bit 1 (hash32 (ip1 p) XOR push_bit 1 (hash16 (port1 p))) XOR
     push_bit 1 (hash32 (ip2 p)) XOR
     drop_bit 1 (push_bit 1 (hash16 (port2 p)))"

text \<open>The user-defined equality is equality, as the containers keyed by it require.\<close>

lemma PacketHash_eq_iff: "PacketHash_eq a b \<longleftrightarrow> a = b"
  by (cases a; cases b) (auto simp: PacketHash_eq_def)

section \<open>The key of a packet\<close>

text \<open>The local and the remote side of a packet with a direction.\<close>

definition local_port :: "Packet \<Rightarrow> u16" where
  "local_port p = (if direction p = Outgoing then sport p else dport p)"

definition remote_port :: "Packet \<Rightarrow> u16" where
  "remote_port p = (if direction p = Outgoing then dport p else sport p)"

definition local_ip :: "Packet \<Rightarrow> u32" where
  "local_ip p = (if direction p = Outgoing then sip p else dip p)"

definition remote_ip :: "Packet \<Rightarrow> u32" where
  "remote_ip p = (if direction p = Outgoing then dip p else sip p)"

lemmas sides = local_port_def remote_port_def local_ip_def remote_ip_def

lemma PacketHash_of_packet_eq:
  "PacketHash_of_packet p =
     (if pkt_type p = UDP then PacketHash_of_port (local_port p)
      else PacketHash_of_socket (local_ip p) (local_port p) (remote_ip p) (remote_port p))"
  by (simp add: PacketHash_of_packet_def PacketHash_of_port_def PacketHash_of_socket_def
      PacketHash_new_def sides Let_def)

lemma flow_key:
  assumes "packet_ok A p" "packet_ok A q" "protocol q = protocol p"
    and "sip q = dip p" "dip q = sip p" "sport q = dport p" "dport q = sport p"
    and "(sip p \<in> A) \<noteq> (dip p \<in> A)"
  shows "PacketHash_of_packet q = PacketHash_of_packet p" "pkt_type q = pkt_type p"
    and "local_ip p \<in> A" "remote_ip p \<notin> A"
    and "PacketHash_of_packet p =
      (if protocol p = 17 then PacketHash_of_port (local_port p)
       else PacketHash_of_socket (local_ip p) (local_port p) (remote_ip p) (remote_port p))"
  using assms by (auto simp: packet_ok_def PacketHash_of_packet_eq sides local_direction_def)

text \<open>Two packets with a direction, of which either both or none are UDP.\<close>

lemma same_flow_iff:
  assumes "packet_ok A p" "packet_ok A q" "protocol p = 17 \<longleftrightarrow> protocol q = 17"
  shows "PacketHash_of_packet p = PacketHash_of_packet q \<longleftrightarrow>
    local_port p = local_port q \<and>
    (protocol p \<noteq> 17 \<longrightarrow> local_ip p = local_ip q \<and> remote_ip p = remote_ip q \<and> remote_port p = remote_port q)"
proof -
  have "pkt_type p = UDP \<longleftrightarrow> protocol p = 17" "pkt_type q = UDP \<longleftrightarrow> protocol q = 17"
    using assms(1,2) by (auto simp: packet_ok_def)
  with assms(3) show ?thesis by (auto simp: PacketHash_of_packet_eq PacketHash_of_port_def PacketHash_of_socket_def)
qed

text \<open>
  C20. The key of a packet identifies its flow by the local side: of two kept packets of the same protocol the
  keys are equal, if it is UDP, exactly when the local ports are, and otherwise exactly when local and
  remote address and port are. So both directions of a flow get the same key when exactly one of the two
  addresses is local, and it is the key that a socket table line of the local socket gets.
\<close>

theorem PacketHash_flow:
  assumes "ipl_ok l" and "Packet_new h raw l = Some p" "\<not> discard p"
    and "Packet_new h' raw' l = Some q" "\<not> discard q" and "protocol q = protocol p"
  shows "(PacketHash_of_packet q = PacketHash_of_packet p \<longleftrightarrow>
      (if protocol p = 17 then local_port q = local_port p
       else (local_ip q, local_port q, remote_ip q, remote_port q) = (local_ip p, local_port p, remote_ip p, remote_port p))) \<and>
    (sip q = dip p \<and> dip q = sip p \<and> sport q = dport p \<and> dport q = sport p \<and>
       (sip p \<in> addresses l) \<noteq> (dip p \<in> addresses l) \<longrightarrow>
     PacketHash_of_packet q = PacketHash_of_packet p \<and> local_ip p \<in> addresses l \<and> remote_ip p \<notin> addresses l) \<and>
    PacketHash_of_packet p =
      (if protocol p = 17 then PacketHash_of_port (local_port p)
       else PacketHash_of_socket (local_ip p) (local_port p) (remote_ip p) (remote_port p))"
proof -
  have ok: "packet_ok (addresses l) p" "packet_ok (addresses l) q"
    using Packet_new_ok assms(1-5) by blast+
  have key: "PacketHash_of_packet p =
      (if protocol p = 17 then PacketHash_of_port (local_port p)
       else PacketHash_of_socket (local_ip p) (local_port p) (remote_ip p) (remote_port p))"
    using ok(1) by (auto simp: packet_ok_def PacketHash_of_packet_eq)
  from same_flow_iff [OF ok(2,1)] assms(6) flow_key [OF ok assms(6)] key show ?thesis by auto
qed

definition sample_frame :: "u32 \<Rightarrow> u32 \<Rightarrow> u16 \<Rightarrow> u16 \<Rightarrow> frame" where
  "sample_frame src dst s d =
     ipv4_frame (replicate 12 0) 0x45 (replicate 8 0) 6 [0, 0] src dst [] s d []"

definition sample_packet :: "u32 \<Rightarrow> u32 \<Rightarrow> u16 \<Rightarrow> u16 \<Rightarrow> Packet" where
  "sample_packet src dst s d =
     expected_packet \<lparr>ts_sec = 7, hdr_len = 60\<rparr> {0x0500000A} 0x45 6 src dst s d"

lemma sample_loads:
  "Packet_new \<lparr>ts_sec = 7, hdr_len = 60\<rparr> (sample_frame 0x08080808 0x0500000A 443 50000) sample_list =
     Some (sample_packet 0x08080808 0x0500000A 443 50000)"
  "Packet_new \<lparr>ts_sec = 7, hdr_len = 60\<rparr> (sample_frame 0x0500000A 0x08080808 50000 443) sample_list =
     Some (sample_packet 0x0500000A 0x08080808 50000 443)"
  using Packet_new_ipv4_frame [OF ipl_ok_sample]
  by (simp_all add: sample_frame_def sample_packet_def addresses_sample)

theorem PacketHash_flow_witness:
  "PacketHash_of_packet (sample_packet 0x0500000A 0x08080808 50000 443) =
     PacketHash_of_packet (sample_packet 0x08080808 0x0500000A 443 50000) \<and>
   PacketHash_of_packet (sample_packet 0x08080808 0x0500000A 443 50000) =
     PacketHash_of_socket 0x0500000A 50000 0x08080808 443 \<and>
   PacketHash_of_packet (sample_packet 0x08080808 0x0500000A 443 50001) \<noteq>
     PacketHash_of_packet (sample_packet 0x08080808 0x0500000A 443 50000)"
proof -
  let ?p = "sample_packet 0x08080808 0x0500000A 443 50000"
  let ?q = "sample_packet 0x0500000A 0x08080808 50000 443"
  have facts: "\<not> discard ?p" "\<not> discard ?q" "protocol ?q = protocol ?p" "sip ?q = dip ?p"
    "dip ?q = sip ?p" "sport ?q = dport ?p" "dport ?q = sport ?p" "protocol ?p = 6"
    "(sip ?p \<in> addresses sample_list) \<noteq> (dip ?p \<in> addresses sample_list)"
    "local_ip ?p = 0x0500000A" "local_port ?p = 50000" "remote_ip ?p = 0x08080808" "remote_port ?p = 443"
    by (simp_all add: sample_packet_def expected_packet_def local_direction_def sides addresses_sample Let_def)
  let ?o = "sample_packet 0x08080808 0x0500000A 443 50001"
  have other: "Packet_new \<lparr>ts_sec = 7, hdr_len = 60\<rparr> (sample_frame 0x08080808 0x0500000A 443 50001) sample_list = Some ?o"
    using Packet_new_ipv4_frame [OF ipl_ok_sample] by (simp add: sample_frame_def sample_packet_def addresses_sample)
  have o: "\<not> discard ?o" "protocol ?o = protocol ?p" "local_port ?o = 50001"
    by (simp_all add: sample_packet_def expected_packet_def local_direction_def sides Let_def)
  show ?thesis
    using PacketHash_flow [OF ipl_ok_sample sample_loads(1) facts(1) sample_loads(2) facts(2,3)]
      PacketHash_flow [OF ipl_ok_sample sample_loads(1) facts(1) other o(1,2)] facts(4-13) o(3)
    by auto
qed

end
