(* ===== verification/Socket_Index.thy ===== *)
theory Socket_Index
  imports Packet_Hash Cxx_Scan Negative_Cache
begin

text \<open>
  \<open>src/src/proc/SocketIndex.cpp\<close>: the index from packet keys to socket inodes, filled from the
  socket tables under \<open>/proc/net\<close>. The files are an argument: \<open>files path\<close> is the content an
  \<open>std::ifstream\<close> reads, \<open>None\<close> when it cannot be opened. The member mutex only separates
  \<open>get\<close> from the thread that clears the list of missed keys, so each is one step.
\<close>

section \<open>The class\<close>

record Socket =
  localIP :: u32
  remoteIP :: u32
  localPort :: u16
  remotePort :: u16
  socket_inode :: inode

record SocketIndex =
  mSocketMap :: "PacketHash \<Rightarrow> inode option"
  si_mCouldNotFind :: "PacketHash \<Rightarrow> bool option"

type_synonym files = "string \<Rightarrow> string option"

text \<open>The format of a line:
  \<^verbatim>\<open>%*d: %64[0-9A-Fa-f]:%hX %64[0-9A-Fa-f]:%hX %*X %*X:%*X %*X:%*X %*X %*d %*d %ld %*512s\n\<close>\<close>

definition socket_line_format :: "directive list" where
  "socket_line_format =
     [Dec False, Lit CHR '':'', Blank, Set True 64 isxdigit, Lit CHR '':'', Hex True, Blank,
      Set True 64 isxdigit, Lit CHR '':'', Hex True, Blank, Hex False, Blank,
      Hex False, Lit CHR '':'', Hex False, Blank, Hex False, Lit CHR '':'', Hex False, Blank,
      Hex False, Blank, Dec False, Blank, Dec False, Blank, Dec True, Blank, Str False 512, Blank]"

text \<open>
  \<open>sscanf(packed, "%X", &ip)\<close>: the value is converted to 32 bits; the variable keeps its initial
  0 when there is no match.
\<close>

definition unpack_ip :: "string \<Rightarrow> u32" where
  "unpack_ip packed = (case sscanf [Hex True] packed of [Number v] \<Rightarrow> ucast v | _ \<Rightarrow> 0)"

text \<open>One iteration of the loop over the lines, up to the socket it unpacks.\<close>

definition parse_line :: "string \<Rightarrow> Socket option" where
  "parse_line line =
     (case sscanf socket_line_format line of
        [Text packedLocalIP, Number lport, Text packedRemoteIP, Number rport, Number ino] \<Rightarrow>
          if ino = 0 then None
          else Some \<lparr>localIP = unpack_ip packedLocalIP, remoteIP = unpack_ip packedRemoteIP,
                     localPort = ucast lport, remotePort = ucast rport, socket_inode = ino\<rparr>
      | _ \<Rightarrow> None)"

definition socket_hash :: "string \<Rightarrow> Socket \<Rightarrow> PacketHash" where
  "socket_hash table sock =
     (if table = ''/proc/net/udp'' then PacketHash_of_port (localPort sock)
      else PacketHash_of_socket (localIP sock) (localPort sock) (remoteIP sock) (remotePort sock))"

fun refresh_lines :: "string \<Rightarrow> string list \<Rightarrow> SocketIndex \<Rightarrow> SocketIndex" where
  "refresh_lines table [] s = s"
| "refresh_lines table (line # lines) s =
     (case parse_line line of
        None \<Rightarrow> refresh_lines table lines s
      | Some sock \<Rightarrow> refresh_lines table lines
          (s\<lparr>mSocketMap := (mSocketMap s)(socket_hash table sock \<mapsto> socket_inode sock)\<rparr>))"

text \<open>The first line, the header, is read and dropped.\<close>

fun SocketIndex_refresh :: "files \<Rightarrow> string list \<Rightarrow> SocketIndex \<Rightarrow> SocketIndex" where
  "SocketIndex_refresh files [] s = s"
| "SocketIndex_refresh files (table # tables) s =
     (case files table of
        None \<Rightarrow> SocketIndex_refresh files tables s
      | Some content \<Rightarrow>
          SocketIndex_refresh files tables (refresh_lines table (drop 1 (lines_of content)) s))"

definition SocketIndex_new :: "files \<Rightarrow> SocketIndex" where
  "SocketIndex_new files =
     SocketIndex_refresh files [''/proc/net/tcp'', ''/proc/net/udp'', ''/proc/net/raw'']
       \<lparr>mSocketMap = Map.empty, si_mCouldNotFind = Map.empty\<rparr>"

text \<open>One round of the detached thread.\<close>

definition SocketIndex_forget :: "SocketIndex \<Rightarrow> SocketIndex" where
  "SocketIndex_forget s = s\<lparr>si_mCouldNotFind := Map.empty\<rparr>"

definition SocketIndex_get :: "files \<Rightarrow> Packet \<Rightarrow> SocketIndex \<Rightarrow> inode \<times> SocketIndex" where
  "SocketIndex_get files pkt s =
     (let hash = PacketHash_of_packet pkt;
          found_after = (\<lambda>s. case mSocketMap s hash of
              Some i \<Rightarrow> (i, s)
            | None \<Rightarrow> (0, s\<lparr>si_mCouldNotFind := (si_mCouldNotFind s)(hash \<mapsto> True)\<rparr>))
      in if si_mCouldNotFind s hash \<noteq> None then (0, s)
         else case mSocketMap s hash of
           Some i \<Rightarrow> (i, s)
         | None \<Rightarrow>
             if pkt_type pkt = TCP then
               found_after (SocketIndex_refresh files [''/proc/net/tcp6'']
                 (SocketIndex_refresh files [''/proc/net/tcp''] s))
             else if pkt_type pkt = UDP then
               found_after (SocketIndex_refresh files [''/proc/net/udp''] s)
             else (0, s))"

section \<open>Invariant\<close>

text \<open>No socket has inode 0, the value that stands for ``not found''.\<close>

definition si_ok :: "SocketIndex \<Rightarrow> bool" where
  "si_ok s \<longleftrightarrow> (\<forall>h. mSocketMap s h \<noteq> Some 0)"

lemma parse_line_inode: "parse_line line = Some sock \<Longrightarrow> socket_inode sock \<noteq> 0"
  by (auto simp: parse_line_def split: list.splits scan_value.splits if_splits)

section \<open>What a refresh does\<close>

text \<open>The entries of a table, in the order of its lines.\<close>

definition table_entries :: "string \<Rightarrow> string list \<Rightarrow> (PacketHash \<times> inode) list" where
  "table_entries table lines =
     concat (map (\<lambda>line. case parse_line line of None \<Rightarrow> []
       | Some sock \<Rightarrow> [(socket_hash table sock, socket_inode sock)]) lines)"

definition file_entries :: "files \<Rightarrow> string \<Rightarrow> (PacketHash \<times> inode) list" where
  "file_entries files table =
     (case files table of None \<Rightarrow> [] | Some content \<Rightarrow> table_entries table (drop 1 (lines_of content)))"

definition tables_map :: "files \<Rightarrow> string list \<Rightarrow> PacketHash \<Rightarrow> inode option" where
  "tables_map files tables = map_of (rev (concat (map (file_entries files) tables)))"

lemma table_entries_simps [simp]:
  "table_entries table [] = []"
  "table_entries table (line # lines) =
     (case parse_line line of None \<Rightarrow> [] | Some sock \<Rightarrow> [(socket_hash table sock, socket_inode sock)]) @
     table_entries table lines"
  by (simp_all add: table_entries_def)

lemma refresh_lines_eq:
  "refresh_lines table lines s =
     s\<lparr>mSocketMap := mSocketMap s ++ map_of (rev (table_entries table lines))\<rparr>"
proof (induction table lines s rule: refresh_lines.induct)
  case (1 table s)
  then show ?case by simp
next
  case (2 table line lines s)
  show ?case
  proof (cases "parse_line line")
    case None
    with 2 show ?thesis by simp
  next
    case (Some sock)
    let ?s = "s\<lparr>mSocketMap := (mSocketMap s)(socket_hash table sock \<mapsto> socket_inode sock)\<rparr>"
    have "refresh_lines table (line # lines) s = refresh_lines table lines ?s"
      using Some by simp
    also have "\<dots> = ?s\<lparr>mSocketMap := mSocketMap ?s ++ map_of (rev (table_entries table lines))\<rparr>"
      by (rule "2.IH"(2) [OF Some])
    also have "\<dots> = s\<lparr>mSocketMap := mSocketMap s ++ map_of (rev (table_entries table (line # lines)))\<rparr>"
      by (simp add: Some map_add_map_of_snoc del: map_of_append fun_upd_apply)
    finally show ?thesis .
  qed
qed

lemma refresh_eq:
  "SocketIndex_refresh files tables s = s\<lparr>mSocketMap := mSocketMap s ++ tables_map files tables\<rparr>"
proof (induction files tables s rule: SocketIndex_refresh.induct)
  case (1 files s)
  then show ?case by (simp add: tables_map_def)
next
  case (2 files table tables s)
  then show ?case
    by (cases "files table") (simp_all add: tables_map_def file_entries_def refresh_lines_eq)
qed

declare SocketIndex_refresh.simps [simp del]

lemma refresh_missed [simp, frame]:
  "si_mCouldNotFind (SocketIndex_refresh files tables s) = si_mCouldNotFind s"
  by (simp add: refresh_eq)

lemma mSocketMap_refresh [simp]:
  "mSocketMap (SocketIndex_refresh files tables s) = mSocketMap s ++ tables_map files tables"
  by (simp add: refresh_eq)

lemma tables_map_append: "tables_map files (xs @ ys) = tables_map files xs ++ tables_map files ys"
  by (simp add: tables_map_def)

lemma table_entries_nonzero: "(h, i) \<in> set (table_entries table lines) \<Longrightarrow> i \<noteq> 0"
  by (induction lines) (auto split: option.splits dest: parse_line_inode [OF sym])

lemma tables_map_nonzero: "tables_map files tables h \<noteq> Some 0"
  by (auto simp: tables_map_def file_entries_def dest!: map_of_SomeD
      split: option.splits dest: table_entries_nonzero)

lemma si_ok_refresh [invariant_intros]: "si_ok s \<Longrightarrow> si_ok (SocketIndex_refresh files tables s)"
  using tables_map_nonzero by (auto simp: si_ok_def map_add_Some_iff)

lemma si_ok_new: "si_ok (SocketIndex_new files)"
  unfolding SocketIndex_new_def by (rule si_ok_refresh) (simp add: si_ok_def)

section \<open>What a lookup does\<close>

text \<open>The tables that are read again for a packet whose key is not known.\<close>

definition tables_for :: "PacketType \<Rightarrow> string list" where
  "tables_for t = (if t = TCP then [''/proc/net/tcp'', ''/proc/net/tcp6''] else [''/proc/net/udp''])"

definition si_searchable :: "Packet \<Rightarrow> bool" where
  "si_searchable pkt \<longleftrightarrow> pkt_type pkt = TCP \<or> pkt_type pkt = UDP"

lemma refresh_tcp_both:
  "SocketIndex_refresh files [''/proc/net/tcp6''] (SocketIndex_refresh files [''/proc/net/tcp''] s) =
   SocketIndex_refresh files (tables_for TCP) s"
  using tables_map_append [of files "[''/proc/net/tcp'']" "[''/proc/net/tcp6'']"]
  by (simp add: refresh_eq tables_for_def)

lemma SocketIndex_get_eq:
  "SocketIndex_get files pkt s =
     (let h = PacketHash_of_packet pkt; s' = SocketIndex_refresh files (tables_for (pkt_type pkt)) s
      in if si_mCouldNotFind s h \<noteq> None then (0, s)
         else case mSocketMap s h of Some i \<Rightarrow> (i, s)
         | None \<Rightarrow> if \<not> si_searchable pkt then (0, s)
             else case tables_map files (tables_for (pkt_type pkt)) h of Some i \<Rightarrow> (i, s')
             | None \<Rightarrow> (0, s'\<lparr>si_mCouldNotFind := (si_mCouldNotFind s)(h \<mapsto> True)\<rparr>))"
proof (cases "si_mCouldNotFind s (PacketHash_of_packet pkt) = None \<and> mSocketMap s (PacketHash_of_packet pkt) = None")
  case False
  then show ?thesis by (auto simp: SocketIndex_get_def Let_def)
next
  case True
  then have m: "mSocketMap (SocketIndex_refresh files ts s) (PacketHash_of_packet pkt) =
      tables_map files ts (PacketHash_of_packet pkt)" for ts
    by (auto simp: map_add_def split: option.splits)
  show ?thesis
    using True m by (simp add: SocketIndex_get_def Let_def si_searchable_def
        tables_for_def refresh_tcp_both [unfolded tables_for_def, simplified] split: option.split)
qed

text \<open>The lookup as the shared contract has it: inode 0 is ``none''.\<close>

definition socket_lookup :: "files \<Rightarrow> Packet \<Rightarrow> SocketIndex \<Rightarrow> (inode option \<times> SocketIndex) option" where
  "socket_lookup files pkt s =
     (let (i, s') = SocketIndex_get files pkt s in Some (if i = 0 then None else Some i, s'))"

lemma si_ok_get [invariant_intros]: "si_ok s \<Longrightarrow> SocketIndex_get files pkt s = (i, s') \<Longrightarrow> si_ok s'"
  by (auto simp: SocketIndex_get_eq Let_def si_ok_def tables_map_nonzero map_add_Some_iff
      split: if_splits option.splits)

text \<open>The inodes that the tables have for a key.\<close>

definition socket_offers :: "files \<Rightarrow> PacketHash \<Rightarrow> inode set" where
  "socket_offers files h = {i. \<exists>t. tables_map files (tables_for t) h = Some i}"

interpretation sockets: negative_cache socket_lookup PacketHash_of_packet si_searchable mSocketMap
  "\<lambda>s. dom (si_mCouldNotFind s)" SocketIndex_forget si_ok socket_offers
proof unfold_locales
  fix q and s :: SocketIndex and e
  assume "PacketHash_of_packet q \<in> dom (si_mCouldNotFind s)"
  then show "socket_lookup e q s = Some (None, s)"
    by (auto simp: socket_lookup_def SocketIndex_get_eq)
next
  fix s :: SocketIndex and q v e
  assume "si_ok s" "PacketHash_of_packet q \<notin> dom (si_mCouldNotFind s)"
    "mSocketMap s (PacketHash_of_packet q) = Some v"
  moreover from this have "v \<noteq> 0" by (auto simp: si_ok_def)
  ultimately show "socket_lookup e q s = Some (Some v, s)"
    by (simp add: socket_lookup_def SocketIndex_get_eq domIff Let_def)
next
  fix s s' :: SocketIndex and e q v
  assume "si_ok s" "socket_lookup e q s = Some (Some v, s')"
  then show "mSocketMap s' (PacketHash_of_packet q) = Some v"
    by (auto simp: socket_lookup_def SocketIndex_get_eq Let_def map_add_Some_iff
        split: if_splits option.splits)
next
  fix s s' :: SocketIndex and e q v
  assume "socket_lookup e q s = Some (Some v, s')"
  then show "dom (si_mCouldNotFind s') = dom (si_mCouldNotFind s)"
    by (auto simp: socket_lookup_def SocketIndex_get_eq Let_def split: if_splits option.splits)
next
  fix s s' :: SocketIndex and e q
  assume "si_ok s" "socket_lookup e q s = Some (None, s')"
  then show "dom (si_mCouldNotFind s') =
      (if si_searchable q then insert (PacketHash_of_packet q) (dom (si_mCouldNotFind s))
       else dom (si_mCouldNotFind s))"
    by (auto simp: socket_lookup_def SocketIndex_get_eq Let_def si_ok_def tables_map_nonzero
        split: if_splits option.splits)
next
  fix s s' :: SocketIndex and e q r
  assume "si_ok s" "socket_lookup e q s = Some (r, s')"
  then show "si_ok s'"
    by (auto simp: socket_lookup_def split: prod.splits dest: si_ok_get)
next
  fix s s' :: SocketIndex and e q r k
  assume "si_ok s" "socket_lookup e q s = Some (r, s')" "mSocketMap s' k \<noteq> mSocketMap s k"
  then show "\<exists>v\<in>socket_offers e k. mSocketMap s' k = Some v"
    by (auto simp: socket_lookup_def SocketIndex_get_eq Let_def socket_offers_def map_add_def
        split: if_splits option.splits prod.splits)
qed (auto simp: SocketIndex_forget_def si_ok_def)

section \<open>Properties\<close>

text \<open>
  C25. A refresh overrides the map with the entries of the tables, in the order of the tables and
  of their lines, the last line of a key winning; nothing is ever removed, a table that cannot
  be opened and a line that is malformed or has inode 0 add nothing, and the list of missed keys
  stays as it is.
\<close>

theorem SocketIndex_refresh_overrides:
  "mSocketMap (SocketIndex_refresh files tables s) = mSocketMap s ++ tables_map files tables \<and>
   dom (mSocketMap s) \<subseteq> dom (mSocketMap (SocketIndex_refresh files tables s)) \<and>
   si_mCouldNotFind (SocketIndex_refresh files tables s) = si_mCouldNotFind s"
  by auto

text \<open>A sequence of lookups, each with the tables as they are at that time.\<close>

fun SocketIndex_gets :: "(files \<times> Packet) list \<Rightarrow> SocketIndex \<Rightarrow> SocketIndex" where
  "SocketIndex_gets [] s = s"
| "SocketIndex_gets ((files, pkt) # rest) s = SocketIndex_gets rest (snd (SocketIndex_get files pkt s))"

lemma lookups_gets: "sockets.uses (map Some es) s = Some (SocketIndex_gets es s)"
proof (induction es s rule: SocketIndex_gets.induct)
  case (2 files pkt rest s)
  have "\<exists>r. socket_lookup files pkt s = Some (r, snd (SocketIndex_get files pkt s))"
    by (simp add: socket_lookup_def split_beta)
  with 2 show ?case by auto
qed simp

lemma socket_lookup_iff:
  "SocketIndex_get files pkt s = (0, s') \<longleftrightarrow> socket_lookup files pkt s = Some (None, s')"
  by (auto simp: socket_lookup_def split: prod.splits if_splits)

text \<open>
  C26. A TCP or UDP packet without a socket is remembered: after the miss, whatever other packets are
  looked up in between and however the tables change, a packet with the same key is answered 0
  and the state does not change (no table is read), until the list of missed keys is cleared.
\<close>

theorem SocketIndex_miss_sticky:
  assumes "si_ok s" "SocketIndex_get files pkt s = (0, s1)" "pkt_type pkt = TCP \<or> pkt_type pkt = UDP"
    and "PacketHash_of_packet pkt' = PacketHash_of_packet pkt"
  shows "SocketIndex_get files' pkt' (SocketIndex_gets between s1) = (0, SocketIndex_gets between s1)"
  using sockets.miss_sticky [OF assms(1) _ _ lookups_gets _ assms(4)] assms(2,3)
  by (auto simp: socket_lookup_iff si_searchable_def)

theorem SocketIndex_miss_sticky_witness:
  "SocketIndex_get (\<lambda>_. None) (sample_packet 0x0500000A 0x08080808 50000 443)
     (SocketIndex_gets [(\<lambda>_. None, sample_packet 0x0500000A 0x08080808 50001 443)]
       (snd (SocketIndex_get (\<lambda>_. None) (sample_packet 0x08080808 0x0500000A 443 50000)
         (SocketIndex_new (\<lambda>_. None))))) =
   (0, SocketIndex_gets [(\<lambda>_. None, sample_packet 0x0500000A 0x08080808 50001 443)]
       (snd (SocketIndex_get (\<lambda>_. None) (sample_packet 0x08080808 0x0500000A 443 50000)
         (SocketIndex_new (\<lambda>_. None)))))"
proof (rule SocketIndex_miss_sticky [OF si_ok_new])
  let ?p = "sample_packet 0x08080808 0x0500000A 443 50000"
  have empty: "tables_map (\<lambda>_. None) ts = Map.empty" for ts
    by (induction ts) (simp_all add: tables_map_def file_entries_def)
  have new: "SocketIndex_new (\<lambda>_. None) = \<lparr>mSocketMap = Map.empty, si_mCouldNotFind = Map.empty\<rparr>"
    by (simp add: SocketIndex_new_def refresh_eq empty)
  show tcp: "pkt_type ?p = TCP \<or> pkt_type ?p = UDP"
    by (simp add: sample_packet_def expected_packet_def local_direction_def)
  show "SocketIndex_get (\<lambda>_. None) ?p (SocketIndex_new (\<lambda>_. None)) =
      (0, snd (SocketIndex_get (\<lambda>_. None) ?p (SocketIndex_new (\<lambda>_. None))))"
    using tcp by (auto simp: new SocketIndex_get_eq empty si_searchable_def Let_def)
  show "PacketHash_of_packet (sample_packet 0x0500000A 0x08080808 50000 443) = PacketHash_of_packet ?p"
    by (simp add: PacketHash_of_packet_eq sides sample_packet_def expected_packet_def local_direction_def)
qed

text \<open>
  A line as the kernel prints it: slot, local and remote address and port, state, queues, timer,
  retransmits, user, timeout, inode, and the rest. The addresses are given as printed.
\<close>

definition kernel_line :: "string \<Rightarrow> nat \<Rightarrow> string \<Rightarrow> u16 \<Rightarrow> string \<Rightarrow> u16 \<Rightarrow> nat list \<Rightarrow> string \<Rightarrow> nat \<Rightarrow> string \<Rightarrow> nat \<Rightarrow>
    nat \<Rightarrow> string \<Rightarrow> string" where
  "kernel_line sp0 sl laddr lport raddr rport nums sp1 uid sp2 timeout ino rest =
     sp0 @ show_nat sl @ '': '' @ laddr @ '':'' @ show_hex 4 (unat lport) @ '' '' @
     raddr @ '':'' @ show_hex 4 (unat rport) @ '' '' @
     show_hex 2 (nums ! 0) @ '' '' @ show_hex 8 (nums ! 1) @ '':'' @ show_hex 8 (nums ! 2) @ '' '' @
     show_hex 2 (nums ! 3) @ '':'' @ show_hex 8 (nums ! 4) @ '' '' @ show_hex 8 (nums ! 5) @ '' '' @
     sp1 @ show_nat uid @ '' '' @ sp2 @ show_nat timeout @ '' '' @ show_nat ino @ '' '' @ rest"

lemma newline_no_digit: "isxdigit c \<Longrightarrow> c \<noteq> CHR 0x0A" "isdigit c \<Longrightarrow> c \<noteq> CHR 0x0A"
  by (auto simp: isxdigit_def isdigit_def)

lemma kernel_line_newline:
  assumes "CHR 0x0A \<notin> set sp0" "CHR 0x0A \<notin> set sp1" "CHR 0x0A \<notin> set sp2" "CHR 0x0A \<notin> set rest"
    and "\<forall>c\<in>set laddr. isxdigit c" "\<forall>c\<in>set raddr. isxdigit c"
  shows "CHR 0x0A \<notin> set (kernel_line sp0 sl laddr lport raddr rport nums sp1 uid sp2 timeout ino rest)"
proof -
  have hex: "CHR 0x0A \<notin> set (show_hex w n)" for w n
    using set_show_hex newline_no_digit(1) by metis
  have dec: "CHR 0x0A \<notin> set (show_nat n)" for n
    using set_show_nat newline_no_digit(2) by metis
  have "CHR 0x0A \<notin> set laddr" "CHR 0x0A \<notin> set raddr"
    using assms(5,6) newline_no_digit(1) by metis+
  with assms(1-4) hex dec show ?thesis
    unfolding kernel_line_def by simp
qed

lemma unat_u16_hex: "hex_value (show_hex 4 (unat (w :: u16))) = unat w"
proof -
  have "unat w < 2 ^ LENGTH(16)" by (rule unsigned_less)
  then show ?thesis by (intro hex_value_show_hex) simp
qed

lemma unat_u32_hex: "hex_value (show_hex 8 (unat (w :: u32))) = unat w"
proof -
  have "unat w < 2 ^ LENGTH(32)" by (rule unsigned_less)
  then show ?thesis by (intro hex_value_show_hex) simp
qed

lemma sscanf_kernel_line:
  assumes "\<forall>c\<in>set sp0. isspace c" "\<forall>c\<in>set sp1. isspace c" "\<forall>c\<in>set sp2. isspace c"
    and "laddr \<noteq> []" "\<forall>c\<in>set laddr. isxdigit c" "length laddr \<le> 64"
    and "raddr \<noteq> []" "\<forall>c\<in>set raddr. isxdigit c" "length raddr \<le> 64"
  shows "sscanf socket_line_format (kernel_line sp0 sl laddr lport raddr rport nums sp1 uid sp2 timeout ino rest) =
    [Text laddr, Number (word_of_nat (unat lport)), Text raddr, Number (word_of_nat (unat rport)),
     Number (word_of_int (min (2 ^ 63 - 1) (int ino)))]"
proof -
  have sep: "\<not> isxdigit CHR '':''" "\<not> isxdigit CHR '' ''" "\<not> isdigit CHR '':''" "\<not> isdigit CHR '' ''"
    by (simp_all add: cxx_eval)
  have port: "\<not> 2 ^ 64 \<le> unat (w :: u16)" for w
  proof -
    have "unat w < 2 ^ LENGTH(16)" by (rule unsigned_less)
    then show ?thesis by simp
  qed
  show ?thesis
    unfolding kernel_line_def socket_line_format_def
    using assms sep
    by (simp add: sscanf_dec_nat sscanf_dec_nat [where sp = "[]", unfolded append_Nil] sscanf_xdigits sscanf_hex
        sscanf_steps set_show_hex unat_u16_hex port [simplified] del: sscanf.simps(2,4,5,6))
qed

lemma unpack_ip_digits:
  assumes "ds \<noteq> []" "\<forall>c\<in>set ds. isxdigit c"
  shows "unpack_ip ds = (if 2 ^ 64 \<le> hex_value ds then - 1 else word_of_nat (hex_value ds))"
proof -
  have "sscanf [Hex True] ds = [Number (if 2 ^ 64 \<le> hex_value ds then - 1 else word_of_nat (hex_value ds))]"
    using sscanf_hex(2) [OF assms, of "[]" "[]"] by simp
  then show ?thesis by (auto simp: unpack_ip_def ucast_nat_64_32 ucast_minus_1_64_32)
qed

lemma parse_kernel_line:
  assumes "\<forall>c\<in>set sp0. isspace c" "\<forall>c\<in>set sp1. isspace c" "\<forall>c\<in>set sp2. isspace c"
    and "laddr \<noteq> []" "\<forall>c\<in>set laddr. isxdigit c" "length laddr \<le> 64"
    and "raddr \<noteq> []" "\<forall>c\<in>set raddr. isxdigit c" "length raddr \<le> 64"
    and "0 < ino" "ino < 2 ^ 63"
  shows "parse_line (kernel_line sp0 sl laddr lport raddr rport nums sp1 uid sp2 timeout ino rest) =
    Some \<lparr>localIP = unpack_ip laddr, remoteIP = unpack_ip raddr, localPort = lport, remotePort = rport,
          socket_inode = word_of_nat ino\<rparr>"
proof -
  have "(word_of_int (min (2 ^ 63 - 1) (int ino)) :: u64) = word_of_nat ino"
    using assms(11) by simp
  moreover have "(word_of_nat ino :: u64) \<noteq> 0"
    using assms(10,11) by (simp add: word_of_nat_eq_0_iff nat_dvd_not_less)
  ultimately show ?thesis
    unfolding parse_line_def sscanf_kernel_line [OF assms(1-9)] by simp
qed

text \<open>An address as the IPv4 tables print it, and as \<open>tcp6\<close> prints it when it is IPv4-mapped.\<close>

definition show_ipv4 :: "u32 \<Rightarrow> string" where
  "show_ipv4 ip = show_hex 8 (unat ip)"

definition show_mapped :: "u32 \<Rightarrow> string" where
  "show_mapped ip = ''0000000000000000FFFF0000'' @ show_hex 8 (unat ip)"

lemma show_ip_facts [simp]:
  "show_ipv4 ip \<noteq> []" "\<forall>c\<in>set (show_ipv4 ip). isxdigit c" "length (show_ipv4 ip) \<le> 64"
  "show_mapped ip \<noteq> []" "\<forall>c\<in>set (show_mapped ip). isxdigit c" "length (show_mapped ip) \<le> 64"
  using set_show_hex by (auto simp: show_ipv4_def show_mapped_def isxdigit_def isdigit_def)

lemma hex_value_append: "hex_value (xs @ ys) = hex_value xs * 16 ^ length ys + hex_value ys"
  by (induction ys rule: rev_induct) (simp_all add: append_assoc [symmetric] del: append_assoc)

lemma unpack_show_ipv4 [simp]: "unpack_ip (show_ipv4 ip) = ip"
proof -
  have "unat ip < 2 ^ LENGTH(32)" by (rule unsigned_less)
  then show ?thesis
    using unpack_ip_digits [OF show_ip_facts(1,2), of ip] by (simp add: show_ipv4_def unat_u32_hex)
qed

text \<open>
  The 32 digits of a mapped address are a number below \<open>2 ^ 64\<close>, whose low 32 bits are the address.
\<close>

lemma unpack_show_mapped [simp]: "unpack_ip (show_mapped ip) = ip"
proof -
  have pre: "hex_value ''0000000000000000FFFF0000'' = 0xFFFF0000"
    by (simp add: hex_value_def hex_digit_value_def)
  have v: "hex_value (show_mapped ip) = 0xFFFF0000 * 2 ^ 32 + unat ip"
    by (simp only: show_mapped_def hex_value_append pre unat_u32_hex length_show_hex) simp
  have "unat ip < 2 ^ LENGTH(32)" by (rule unsigned_less)
  then have "\<not> 2 ^ 64 \<le> hex_value (show_mapped ip)" by (simp add: v)
  moreover have "(word_of_nat (hex_value (show_mapped ip)) :: u32) = ip"
    by (simp add: v)
  ultimately show ?thesis using unpack_ip_digits [OF show_ip_facts(4,5), of ip] by simp
qed

text \<open>
  C23. Parsing inverts the kernel's printing: of a line of \<open>/proc/net/tcp\<close> or \<open>udp\<close>, whatever its
  other columns are, the loop recovers addresses, ports and inode.
\<close>

theorem parse_line_kernel:
  assumes "\<forall>c\<in>set (sp0 @ sp1 @ sp2). isspace c" "0 < ino" "ino < 2 ^ 63"
  shows "parse_line (kernel_line sp0 sl (show_ipv4 lip) lport (show_ipv4 rip) rport nums sp1 uid sp2 timeout ino rest) =
    Some \<lparr>localIP = lip, remoteIP = rip, localPort = lport, remotePort = rport,
          socket_inode = word_of_nat ino\<rparr>"
  using parse_kernel_line [of sp0 sp1 sp2 "show_ipv4 lip" "show_ipv4 rip" ino] assms by simp

theorem parse_line_kernel_witness:
  "parse_line (kernel_line ''   '' 7 (show_ipv4 0x0100007F) 8080 (show_ipv4 0) 0 [10, 0, 0, 0, 0, 0] ''   ''
      1000 ''       '' 0 31337 ''1 0000000000000000 100 0 0 10 0'') =
   Some \<lparr>localIP = 0x0100007F, remoteIP = 0, localPort = 8080, remotePort = 0, socket_inode = 31337\<rparr>"
  using parse_line_kernel [of "''   ''" "''   ''" "''       ''" 31337] by (simp add: isspace_def)

text \<open>
  C24. The \<open>tcp6\<close> lines of IPv4-mapped sockets get the key of the IPv4 connection: the conversion
  of the 128 bit address to 32 bits keeps exactly the embedded address. Hence a TCP packet is
  matched by the \<open>tcp6\<close> line of its connection.
\<close>

theorem tcp6_mapped_key:
  assumes "\<forall>c\<in>set (sp0 @ sp1 @ sp2). isspace c" "0 < ino" "ino < 2 ^ 63" "pkt_type pkt = TCP"
  shows "\<exists>sock. parse_line (kernel_line sp0 sl (show_mapped (local_ip pkt)) (local_port pkt)
        (show_mapped (remote_ip pkt)) (remote_port pkt) nums sp1 uid sp2 timeout ino rest) = Some sock \<and>
      socket_hash ''/proc/net/tcp6'' sock = PacketHash_of_packet pkt \<and> socket_inode sock = word_of_nat ino"
  using parse_kernel_line [of sp0 sp1 sp2 "show_mapped (local_ip pkt)" "show_mapped (remote_ip pkt)" ino] assms
  by (simp add: socket_hash_def PacketHash_of_packet_eq)

theorem tcp6_mapped_key_witness:
  "\<exists>sock. parse_line (kernel_line ''   '' 7 (show_mapped 0x0500000A) 50000 (show_mapped 0x08080808) 443
        [1, 0, 0, 0, 0, 0] ''   '' 1000 ''       '' 0 31337 ''1'') = Some sock \<and>
      socket_hash ''/proc/net/tcp6'' sock =
        PacketHash_of_packet (sample_packet 0x08080808 0x0500000A 443 50000) \<and> socket_inode sock = 31337"
proof -
  let ?p = "sample_packet 0x08080808 0x0500000A 443 50000"
  have p: "pkt_type ?p = TCP" "local_ip ?p = 0x0500000A" "local_port ?p = 50000"
    "remote_ip ?p = 0x08080808" "remote_port ?p = 443"
    by (simp_all add: sample_packet_def expected_packet_def local_direction_def sides)
  show ?thesis
    using tcp6_mapped_key [of "''   ''" "''   ''" "''       ''" 31337 ?p 7 "[1, 0, 0, 0, 0, 0]" 1000 0 "''1''"] p
    by (simp add: isspace_def)
qed

end
