(* ===== verification/Process_Resolver.thy ===== *)
theory Process_Resolver
  imports Socket_Index Process_Index
begin

text \<open>
  \<open>src/src/proc/ProcessResolver.cpp\<close>: from a packet to its process, through the socket index and
  the process index, with a placeholder for packets that cannot be matched. Both indexes satisfy
  the contract \<open>negative_cache\<close>, and the properties here rest on it.
\<close>

record ProcessResolver =
  mSocketIndex :: SocketIndex
  mProcessIndex :: ProcessIndex

definition mUnknownProcess :: Process where
  "mUnknownProcess = \<lparr>comm = ''Unknown Traffic'', proc_pid = 0\<rparr>"

definition ProcessResolver_new :: "proc_env \<Rightarrow> i32 \<Rightarrow> abort + ProcessResolver" where
  "ProcessResolver_new env processIndexCacheSize =
     (case ProcessIndex_new env processIndexCacheSize of
        Inl a \<Rightarrow> Inl a
      | Inr pidx \<Rightarrow> Inr \<lparr>mSocketIndex = SocketIndex_new (env_file env), mProcessIndex = pidx\<rparr>)"

definition ProcessResolver_resolve :: "proc_env \<Rightarrow> Packet \<Rightarrow> ProcessResolver \<Rightarrow> abort + (Process \<times> ProcessResolver)" where
  "ProcessResolver_resolve env pkt r =
     (let (i, sidx) = SocketIndex_get (env_file env) pkt (mSocketIndex r);
          r = r\<lparr>mSocketIndex := sidx\<rparr>
      in if i = 0 then Inr (mUnknownProcess, r)
         else case ProcessIndex_get env i (mProcessIndex r) of
           Inl a \<Rightarrow> Inl a
         | Inr (Some p, pidx) \<Rightarrow> Inr (p, r\<lparr>mProcessIndex := pidx\<rparr>)
         | Inr (None, pidx) \<Rightarrow> Inr (mUnknownProcess, r\<lparr>mProcessIndex := pidx\<rparr>))"

definition resolver_ok :: "ProcessResolver \<Rightarrow> bool" where
  "resolver_ok r \<longleftrightarrow> si_ok (mSocketIndex r) \<and> pi_ok (mProcessIndex r)"

lemma resolver_ok_new: "ProcessResolver_new env n = Inr r \<Longrightarrow> resolver_ok r"
  by (auto simp: ProcessResolver_new_def resolver_ok_def si_ok_new dest: ProcessIndex_new_ok
      split: sum.splits)

text \<open>The two lookups a resolution consists of.\<close>

lemma resolve_cases:
  assumes "ProcessResolver_resolve env pkt r = Inr (p, r')"
  obtains (no_socket) sidx where
      "socket_lookup (env_file env) pkt (mSocketIndex r) = Some (None, sidx)"
      "p = mUnknownProcess" "r' = r\<lparr>mSocketIndex := sidx\<rparr>"
    | (socket) i sidx q pidx where
      "socket_lookup (env_file env) pkt (mSocketIndex r) = Some (Some i, sidx)"
      "process_lookup env i (mProcessIndex r) = Some (q, pidx)"
      "p = (case q of Some p \<Rightarrow> p | None \<Rightarrow> mUnknownProcess)"
      "r' = r\<lparr>mSocketIndex := sidx, mProcessIndex := pidx\<rparr>"
proof -
  obtain i sidx where g: "SocketIndex_get (env_file env) pkt (mSocketIndex r) = (i, sidx)" by fastforce
  show ?thesis
  proof (cases "i = 0")
    case True
    with g assms show ?thesis
      by (intro no_socket [of sidx]) (auto simp: ProcessResolver_resolve_def socket_lookup_def)
  next
    case False
    with g assms obtain q pidx where q: "ProcessIndex_get env i (mProcessIndex r) = Inr (q, pidx)"
      by (auto simp: ProcessResolver_resolve_def Let_def split: sum.splits)
    with False g assms show ?thesis
      by (intro socket [of i sidx q pidx])
        (auto simp: ProcessResolver_resolve_def socket_lookup_def process_lookup_iff Let_def split: option.splits)
  qed
qed

lemma resolve_no_socket:
  "socket_lookup (env_file env) pkt (mSocketIndex r) = Some (None, sidx) \<Longrightarrow>
   ProcessResolver_resolve env pkt r = Inr (mUnknownProcess, r\<lparr>mSocketIndex := sidx\<rparr>)"
  by (auto simp: ProcessResolver_resolve_def socket_lookup_def split: prod.splits if_splits)

lemma resolve_socket:
  "socket_lookup (env_file env) pkt (mSocketIndex r) = Some (Some i, sidx) \<Longrightarrow>
   process_lookup env i (mProcessIndex r) = Some (q, pidx) \<Longrightarrow>
   ProcessResolver_resolve env pkt r =
     Inr (case q of Some p \<Rightarrow> p | None \<Rightarrow> mUnknownProcess, r\<lparr>mSocketIndex := sidx, mProcessIndex := pidx\<rparr>)"
  by (auto simp: ProcessResolver_resolve_def socket_lookup_def process_lookup_iff
      split: prod.splits if_splits option.splits)

lemma resolver_ok_resolve [invariant_intros]:
  assumes "resolver_ok r" "ProcessResolver_resolve env pkt r = Inr (p, r')"
  shows "resolver_ok r'"
  using assms(2,1)
  by (cases rule: resolve_cases)
    (auto simp: resolver_ok_def intro: sockets.ok_lookup processes.ok_lookup)

text \<open>What the two indexes say of a packet: map entries count unless the key is listed as missed.\<close>

definition unmissed :: "('k \<Rightarrow> bool option) \<Rightarrow> ('k \<Rightarrow> 'v option) \<Rightarrow> 'k \<Rightarrow> 'v option" where
  "unmissed missed m k = (if missed k \<noteq> None then None else m k)"

definition attributed :: "ProcessResolver \<Rightarrow> Packet \<Rightarrow> Process" where
  "attributed r pkt =
     (case unmissed (si_mCouldNotFind (mSocketIndex r)) (mSocketMap (mSocketIndex r)) (PacketHash_of_packet pkt) of
        None \<Rightarrow> mUnknownProcess
      | Some i \<Rightarrow>
          (case unmissed (pi_mCouldNotFind (mProcessIndex r)) (mProcessMap (mProcessIndex r)) i of
             None \<Rightarrow> mUnknownProcess
           | Some p \<Rightarrow> p))"

lemma unmissed_socket:
  assumes "si_ok s" "socket_lookup files pkt s = Some (v, s')"
  shows "unmissed (si_mCouldNotFind s') (mSocketMap s') (PacketHash_of_packet pkt) = v"
proof (cases v)
  case None
  show ?thesis
  proof (cases "si_searchable pkt")
    case True
    with sockets.missed_None [OF assms(1), of files pkt s'] assms(2) None show ?thesis
      by (auto simp: unmissed_def)
  next
    case False
    with assms None show ?thesis
      by (auto simp: unmissed_def socket_lookup_def SocketIndex_get_eq Let_def si_ok_def
          split: if_splits option.splits)
  qed
next
  case (Some i)
  with sockets.lookup_sound [OF assms(1), of files pkt i s'] sockets.found_not_missed [of files pkt s i s'] assms(2)
  show ?thesis by (auto simp: unmissed_def)
qed

lemma unmissed_process:
  assumes "pi_ok s" "process_lookup env i s = Some (v, s')"
  shows "unmissed (pi_mCouldNotFind s') (mProcessMap s') i = v"
proof (cases v)
  case None
  with processes.missed_None [OF assms(1), of env i s'] assms(2) show ?thesis
    by (auto simp: unmissed_def)
next
  case (Some q)
  with processes.lookup_sound [OF assms(1), of env i q s'] processes.found_not_missed [of env i s q s'] assms(2)
  show ?thesis by (auto simp: unmissed_def)
qed

lemma resolve_attributed:
  assumes "resolver_ok r" "ProcessResolver_resolve env pkt r = Inr (p, r')"
  shows "p = attributed r' pkt"
proof -
  have ok: "si_ok (mSocketIndex r)" "pi_ok (mProcessIndex r)" using assms(1) by (simp_all add: resolver_ok_def)
  show ?thesis
    using assms(2)
    by (cases rule: resolve_cases)
      (simp_all add: attributed_def unmissed_socket [OF ok(1)] unmissed_process [OF ok(2)] split: option.split)
qed

text \<open>
  C14. The process a packet is attributed to is the one the two indexes hold after the call: the
  process of the inode of the packet's key, and the placeholder exactly when the key or the inode
  has no entry or is listed as missed.
\<close>

theorem resolve_attribution:
  assumes "resolver_ok r" "ProcessResolver_resolve env pkt r = Inr (p, r')"
  shows "resolver_ok r' \<and> p = attributed r' pkt"
  using resolver_ok_resolve [OF assms] resolve_attributed [OF assms] by blast

text \<open>The sample host: one TCP connection of the process 10 (ssh).\<close>

definition sample_host :: proc_env where
  "sample_host = sample_env\<lparr>env_file := (\<lambda>path.
     if path = ''/proc/net/tcp'' then
       Some (unlines [''sl'', kernel_line [] 1 (show_ipv4 0x0500000A) 50000 (show_ipv4 0x08080808) 443
               [1, 0, 0, 0, 0, 0] [] 0 [] 0 42 ''1''])
     else env_file sample_env path)\<rparr>"

definition sample_resolver :: ProcessResolver where
  "sample_resolver = \<lparr>mSocketIndex = \<lparr>mSocketMap = Map.empty, si_mCouldNotFind = Map.empty\<rparr>,
                      mProcessIndex = sample_index\<rparr>"

lemma resolver_ok_sample: "resolver_ok sample_resolver"
  by (simp add: resolver_ok_def sample_resolver_def sample_index_ok si_ok_def)

abbreviation sample_pkt :: Packet where
  "sample_pkt \<equiv> sample_packet 0x08080808 0x0500000A 443 50000"

lemma sample_pkt_facts: "pkt_type sample_pkt = TCP"
  "PacketHash_of_packet sample_pkt = PacketHash_of_socket 0x0500000A 50000 0x08080808 443"
  by (simp_all add: sample_packet_def expected_packet_def local_direction_def PacketHash_of_packet_eq sides)

lemma sample_tables: "tables_map (env_file sample_host) (tables_for TCP) =
   [PacketHash_of_socket 0x0500000A 50000 0x08080808 443 \<mapsto> 42]"
proof -
  let ?l = "kernel_line [] 1 (show_ipv4 0x0500000A) 50000 (show_ipv4 0x08080808) 443 [1, 0, 0, 0, 0, 0] [] 0 [] 0 42 ''1''"
  have "file_entries (env_file sample_host) ''/proc/net/tcp'' = table_entries ''/proc/net/tcp'' [?l]"
    using lines_of_unlines [of "[''sl'', ?l]"] kernel_line_newline [of "[]" "[]" "[]" "''1''"]
    by (simp add: file_entries_def sample_host_def)
  also have "\<dots> = [(PacketHash_of_socket 0x0500000A 50000 0x08080808 443, 42)]"
    using parse_kernel_line [of "[]" "[]" "[]" "show_ipv4 0x0500000A" "show_ipv4 0x08080808" 42]
    by (simp add: socket_hash_def)
  finally show ?thesis
    by (simp add: tables_map_def tables_for_def file_entries_def sample_host_def sample_env_def)
qed

lemma sample_resolve:
  "\<exists>r'. ProcessResolver_resolve sample_host sample_pkt sample_resolver = Inr (\<lparr>comm = ''ssh'', proc_pid = 10\<rparr>, r')"
proof -
  have "\<exists>s. SocketIndex_get (env_file sample_host) sample_pkt (mSocketIndex sample_resolver) = (42, s)"
    by (simp add: SocketIndex_get_eq sample_resolver_def si_searchable_def sample_pkt_facts sample_tables)
  moreover have "\<exists>s. ProcessIndex_get sample_host 42 (mProcessIndex sample_resolver) =
      Inr (Some \<lparr>comm = ''ssh'', proc_pid = 10\<rparr>, s)"
    by (simp add: sample_resolver_def sample_host_def ProcessIndex_get_def sample_index_def
      ProcessIndex_search_def searchCache_def LRUArray_iterator_def LRUArray_contains_def sample_env_def
      sample_strings processPidDir_def pid_string_def fd_path_def first_line_def lines_of_def)
  ultimately show ?thesis by (auto simp: ProcessResolver_resolve_def)
qed

theorem resolve_attribution_witness:
  "\<exists>r'. ProcessResolver_resolve sample_host sample_pkt sample_resolver = Inr (\<lparr>comm = ''ssh'', proc_pid = 10\<rparr>, r') \<and>
     attributed r' sample_pkt = \<lparr>comm = ''ssh'', proc_pid = 10\<rparr>"
proof -
  obtain r' where r: "ProcessResolver_resolve sample_host sample_pkt sample_resolver =
      Inr (\<lparr>comm = ''ssh'', proc_pid = 10\<rparr>, r')"
    using sample_resolve by blast
  with resolve_attribution [OF resolver_ok_sample r] show ?thesis by metis
qed

section \<open>What is remembered of a flow\<close>

text \<open>
  What happens to the resolver: it resolves packets, each with the \<open>/proc\<close> of that time, and the threads
  of the two indexes clear their lists of missed keys.
\<close>

datatype resolver_event = Resolved proc_env Packet | Sockets_cleared | Processes_cleared

fun resolver_run :: "resolver_event list \<Rightarrow> ProcessResolver \<Rightarrow> abort + ProcessResolver" where
  "resolver_run [] r = Inr r"
| "resolver_run (Resolved env pkt # es) r =
     (case ProcessResolver_resolve env pkt r of Inl a \<Rightarrow> Inl a | Inr (_, r') \<Rightarrow> resolver_run es r')"
| "resolver_run (Sockets_cleared # es) r = resolver_run es (r\<lparr>mSocketIndex := SocketIndex_forget (mSocketIndex r)\<rparr>)"
| "resolver_run (Processes_cleared # es) r = resolver_run es (r\<lparr>mProcessIndex := ProcessIndex_forget (mProcessIndex r)\<rparr>)"

text \<open>The entries for a key: no socket, a socket without a process, or both.\<close>

definition flow_entry :: "ProcessResolver \<Rightarrow> PacketHash \<Rightarrow> (inode \<times> Process option) option" where
  "flow_entry r h = map_option (\<lambda>i. (i, unmissed (pi_mCouldNotFind (mProcessIndex r)) (mProcessMap (mProcessIndex r)) i))
     (unmissed (si_mCouldNotFind (mSocketIndex r)) (mSocketMap (mSocketIndex r)) h)"

text \<open>
  Whether an event leaves an entry as it is. What was found stays while the tables, when they are read,
  have no other socket for the key, and \<open>/proc\<close> no other process for the inode; what was missed stays
  until the list with it is cleared.
\<close>

fun undisturbed :: "PacketHash \<Rightarrow> (inode \<times> Process option) option \<Rightarrow> resolver_event \<Rightarrow> bool" where
  "undisturbed h None (Resolved env pkt) \<longleftrightarrow> True"
| "undisturbed h (Some (i, None)) (Resolved env pkt) \<longleftrightarrow> socket_offers (env_file env) h \<subseteq> {i}"
| "undisturbed h (Some (i, Some q)) (Resolved env pkt) \<longleftrightarrow> socket_offers (env_file env) h \<subseteq> {i} \<and> process_offers env i \<subseteq> {q}"
| "undisturbed h v Sockets_cleared \<longleftrightarrow> v \<noteq> None"
| "undisturbed h v Processes_cleared \<longleftrightarrow> (\<forall>i. v \<noteq> Some (i, None))"

text \<open>What the indexes hold when a packet with the key has been resolved: a miss is listed.\<close>

definition settled :: "ProcessResolver \<Rightarrow> PacketHash \<Rightarrow> (inode \<times> Process option) option \<Rightarrow> bool" where
  "settled r h v \<longleftrightarrow>
     (case v of
        None \<Rightarrow> h \<in> dom (si_mCouldNotFind (mSocketIndex r))
      | Some (i, w) \<Rightarrow> h \<notin> dom (si_mCouldNotFind (mSocketIndex r)) \<and> mSocketMap (mSocketIndex r) h = Some i \<and>
          (case w of
             None \<Rightarrow> i \<in> dom (pi_mCouldNotFind (mProcessIndex r))
           | Some q \<Rightarrow> i \<notin> dom (pi_mCouldNotFind (mProcessIndex r)) \<and> mProcessMap (mProcessIndex r) i = Some q))"

definition entry_process :: "(inode \<times> Process option) option \<Rightarrow> Process" where
  "entry_process v = (case v of Some (i, Some q) \<Rightarrow> q | _ \<Rightarrow> mUnknownProcess)"

lemma settled_entry: "settled r h v \<Longrightarrow> flow_entry r h = v"
  by (cases v rule: option.exhaust; fastforce simp: settled_def flow_entry_def unmissed_def domIff split: option.splits)

lemma settled_resolve:
  assumes "resolver_ok r" "ProcessResolver_resolve env pkt r = Inr (p, r')" "si_searchable pkt"
  shows "\<exists>v. settled r' (PacketHash_of_packet pkt) v \<and> p = entry_process v"
proof -
  have ok: "si_ok (mSocketIndex r)" "pi_ok (mProcessIndex r)" using assms(1) by (simp_all add: resolver_ok_def)
  show ?thesis
    using assms(2)
  proof (cases rule: resolve_cases)
    case (no_socket sidx)
    with sockets.missed_None [OF ok(1) no_socket(1)] assms(3) show ?thesis
      by (intro exI [of _ None]) (simp add: settled_def entry_process_def)
  next
    case (socket i sidx q pidx)
    note sock = sockets.lookup_sound [OF ok(1) socket(1)] sockets.found_not_missed [OF socket(1)]
    show ?thesis
    proof (cases q)
      case None
      with processes.missed_None [OF ok(2)] socket sock show ?thesis
        by (intro exI [of _ "Some (i, None)"]) (simp add: settled_def entry_process_def)
    next
      case (Some q')
      with processes.lookup_sound [OF ok(2)] processes.found_not_missed socket sock show ?thesis
        by (intro exI [of _ "Some (i, q)"]) (simp add: settled_def entry_process_def)
    qed
  qed
qed

lemma resolve_settled:
  assumes "resolver_ok r" "settled r (PacketHash_of_packet pkt) v"
  shows "ProcessResolver_resolve env pkt r = Inr (entry_process v, r)"
proof -
  have ok: "si_ok (mSocketIndex r)" "pi_ok (mProcessIndex r)" using assms(1) by (simp_all add: resolver_ok_def)
  show ?thesis
  proof (cases v)
    case None
    with assms(2) have "socket_lookup (env_file env) pkt (mSocketIndex r) = Some (None, mSocketIndex r)"
      by (intro sockets.lookup_missed) (simp add: settled_def)
    with None show ?thesis by (simp add: resolve_no_socket entry_process_def)
  next
    case (Some iw)
    obtain i w where iw: "iw = (i, w)" by fastforce
    from assms(2) Some iw have "socket_lookup (env_file env) pkt (mSocketIndex r) = Some (Some i, mSocketIndex r)"
      by (intro sockets.lookup_known [OF ok(1)]) (simp_all add: settled_def)
    moreover have "process_lookup env i (mProcessIndex r) = Some (w, mProcessIndex r)"
      using assms(2) Some iw processes.lookup_missed processes.lookup_known [OF ok(2)]
      by (cases w) (simp_all add: settled_def)
    ultimately show ?thesis using Some iw by (simp add: resolve_socket entry_process_def split: option.split)
  qed
qed

text \<open>A resolution of any packet uses the socket index, and the process index or nothing of it.\<close>

lemma resolve_keeps_settled:
  assumes ok: "resolver_ok r" and step: "ProcessResolver_resolve env pkt r = Inr (p, r')"
    and s: "settled r h v" and u: "undisturbed h v (Resolved env pkt)"
  shows "settled r' h v"
proof -
  have oks: "si_ok (mSocketIndex r)" "pi_ok (mProcessIndex r)" using ok by (simp_all add: resolver_ok_def)
  from step obtain x where x: "socket_lookup (env_file env) pkt (mSocketIndex r) = Some (x, mSocketIndex r')"
    by (cases rule: resolve_cases) auto
  from step have y: "mProcessIndex r' = mProcessIndex r \<or>
      (\<exists>i q. process_lookup env i (mProcessIndex r) = Some (q, mProcessIndex r'))"
    by (cases rule: resolve_cases) auto
  show ?thesis
  proof (cases v)
    case None
    with s sockets.missed_mono [OF oks(1) x] show ?thesis by (auto simp: settled_def)
  next
    case (Some iw)
    obtain i w where iw: "iw = (i, w)" by fastforce
    have "socket_offers (env_file env) h \<subseteq> {i}" using u Some iw by (cases w) simp_all
    then have sock: "h \<notin> dom (si_mCouldNotFind (mSocketIndex r'))" "mSocketMap (mSocketIndex r') h = Some i"
      using sockets.hit_lookup [OF oks(1) x, of h i] s Some iw by (auto simp: settled_def)
    show ?thesis
    proof (cases w)
      case None
      then have "i \<in> dom (pi_mCouldNotFind (mProcessIndex r'))"
        using y processes.missed_mono [OF oks(2), of env _ _ "mProcessIndex r'"] s Some iw by (fastforce simp: settled_def)
      with sock None Some iw show ?thesis by (simp add: settled_def)
    next
      case (Some q)
      with u \<open>v = Some iw\<close> iw have "process_offers env i \<subseteq> {q}" by simp
      then have "i \<notin> dom (pi_mCouldNotFind (mProcessIndex r'))" "mProcessMap (mProcessIndex r') i = Some q"
        using y processes.hit_lookup [OF oks(2), of env _ _ "mProcessIndex r'" i q] s Some \<open>v = Some iw\<close> iw
        by (fastforce simp: settled_def)+
      with sock Some \<open>v = Some iw\<close> iw show ?thesis by (simp add: settled_def)
    qed
  qed
qed

lemma settled_run:
  assumes "resolver_run es r = Inr r'" "resolver_ok r" "settled r h v" "list_all (undisturbed h v) es"
  shows "resolver_ok r' \<and> settled r' h v"
  using assms
proof (induction es r rule: resolver_run.induct)
  case (2 env pkt es r)
  then obtain p t where t: "ProcessResolver_resolve env pkt r = Inr (p, t)" "resolver_run es t = Inr r'"
    by (auto split: sum.splits)
  with 2 show ?case using resolver_ok_resolve [OF _ t(1)] resolve_keeps_settled [OF _ t(1)] by simp
next
  case (3 es r)
  then have "settled (r\<lparr>mSocketIndex := SocketIndex_forget (mSocketIndex r)\<rparr>) h v"
    by (auto simp: settled_def SocketIndex_forget_def split: option.splits)
  moreover have "resolver_ok (r\<lparr>mSocketIndex := SocketIndex_forget (mSocketIndex r)\<rparr>)"
    using "3.prems"(2) by (simp add: resolver_ok_def sockets.ok_forget)
  ultimately show ?case using 3 by simp
next
  case (4 es r)
  then have "settled (r\<lparr>mProcessIndex := ProcessIndex_forget (mProcessIndex r)\<rparr>) h v"
    by (auto simp: settled_def ProcessIndex_forget_def split: option.splits)
  moreover have "resolver_ok (r\<lparr>mProcessIndex := ProcessIndex_forget (mProcessIndex r)\<rparr>)"
    using "4.prems"(2) by (simp add: resolver_ok_def processes.ok_forget)
  ultimately show ?case using 4 by simp
qed simp

lemma resolve_remembers:
  assumes "resolver_ok r" "ProcessResolver_resolve env pkt r = Inr (p, r1)"
    and "PacketHash_of_packet pkt' = PacketHash_of_packet pkt" "pkt_type pkt = TCP \<or> pkt_type pkt = UDP"
    and "resolver_run es r1 = Inr r2"
    and "list_all (undisturbed (PacketHash_of_packet pkt) (flow_entry r1 (PacketHash_of_packet pkt))) es"
  shows "ProcessResolver_resolve env' pkt' r2 = Inr (p, r2)"
proof -
  obtain v where v: "settled r1 (PacketHash_of_packet pkt) v" "p = entry_process v"
    using settled_resolve [OF assms(1,2)] assms(4) by (auto simp: si_searchable_def)
  from settled_run [OF assms(5) resolver_ok_resolve [OF assms(1,2)] v(1)] assms(6) settled_entry [OF v(1)]
  have "resolver_ok r2" "settled r2 (PacketHash_of_packet pkt') v" by (simp_all add: assms(3))
  from resolve_settled [OF this] v(2) show ?thesis by simp
qed

lemma resolve_again:
  assumes "resolver_ok r" "ProcessResolver_resolve env pkt r = Inr (p, r')"
    and "PacketHash_of_packet pkt' = PacketHash_of_packet pkt" "pkt_type pkt = TCP \<or> pkt_type pkt = UDP"
  shows "ProcessResolver_resolve env' pkt' r' = Inr (p, r')"
  using resolve_remembers [OF assms, of "[]" r'] by simp

text \<open>
  C13. One search per flow: once a TCP or UDP packet was resolved, every later packet with the same key is
  resolved to the same process without any change to the indexes and without reading \<open>/proc\<close>, whatever
  other packets are resolved in between, as long as these meet no other socket for the key in the tables
  and no other process with its inode. What was not found stays so until the list with it is cleared;
  clearings do not affect what was found.
\<close>

theorem resolve_repeats:
  assumes "resolver_ok r" "ProcessResolver_resolve env pkt r = Inr (p, r1)"
    and "PacketHash_of_packet pkt' = PacketHash_of_packet pkt" "pkt_type pkt = TCP \<or> pkt_type pkt = UDP"
    and "resolver_run es r1 = Inr r2"
    and "list_all (undisturbed (PacketHash_of_packet pkt) (flow_entry r1 (PacketHash_of_packet pkt))) es"
  shows "ProcessResolver_resolve env' pkt' r2 = Inr (p, r2)"
  using assms by (rule resolve_remembers)

text \<open>
  Between two packets of the connection of ssh: one of another connection, which has no socket, resolved
  when ssh has closed its descriptors, and both clearings.
\<close>

theorem resolve_repeats_witness:
  "\<exists>r1 r2. ProcessResolver_resolve sample_host sample_pkt sample_resolver = Inr (\<lparr>comm = ''ssh'', proc_pid = 10\<rparr>, r1) \<and>
     resolver_run [Resolved (sample_host\<lparr>env_fddir := \<lambda>_. None\<rparr>) (sample_packet 0x08080808 0x0500000A 443 50001),
       Sockets_cleared, Processes_cleared] r1 = Inr r2 \<and>
     ProcessResolver_resolve sample_env (sample_packet 0x0500000A 0x08080808 50000 443) r2 =
       Inr (\<lparr>comm = ''ssh'', proc_pid = 10\<rparr>, r2)"
proof -
  let ?h = "PacketHash_of_socket 0x0500000A 50000 0x08080808 443"
  let ?other = "sample_packet 0x08080808 0x0500000A 443 50001"
  let ?gone = "sample_host\<lparr>env_fddir := \<lambda>_. None\<rparr>"
  let ?es = "[Resolved ?gone ?other, Sockets_cleared, Processes_cleared]"
  obtain pidx where pidx: "ProcessIndex_get sample_host 42 sample_index = Inr (Some \<lparr>comm = ''ssh'', proc_pid = 10\<rparr>, pidx)"
    by (simp add: sample_host_def ProcessIndex_get_def sample_index_def ProcessIndex_search_def searchCache_def
      LRUArray_iterator_def LRUArray_contains_def sample_env_def sample_strings processPidDir_def pid_string_def
      fd_path_def first_line_def lines_of_def)
  let ?r1 = "\<lparr>mSocketIndex = \<lparr>mSocketMap = [?h \<mapsto> 42], si_mCouldNotFind = Map.empty\<rparr>, mProcessIndex = pidx\<rparr>"
  have r1: "ProcessResolver_resolve sample_host sample_pkt sample_resolver = Inr (\<lparr>comm = ''ssh'', proc_pid = 10\<rparr>, ?r1)"
    using pidx by (simp add: ProcessResolver_resolve_def SocketIndex_get_eq sample_resolver_def si_searchable_def
      sample_pkt_facts sample_tables refresh_eq)
  have other: "PacketHash_of_packet ?other = PacketHash_of_socket 0x0500000A 50001 0x08080808 443" "pkt_type ?other = TCP"
    by (simp_all add: sample_packet_def expected_packet_def local_direction_def PacketHash_of_packet_eq sides)
  have key: "PacketHash_of_packet (sample_packet 0x0500000A 0x08080808 50000 443) = PacketHash_of_packet sample_pkt"
    by (simp add: sample_packet_def expected_packet_def local_direction_def PacketHash_of_packet_eq sides)
  have udp: "tables_map (env_file sample_host) (tables_for t) = Map.empty" if "t \<noteq> TCP" for t
    using that by (simp add: tables_map_def tables_for_def file_entries_def sample_host_def sample_env_def)
  have socks: "socket_offers (env_file sample_host) ?h \<subseteq> {42}"
  proof -
    have "tables_map (env_file sample_host) (tables_for t) ?h = Some i \<Longrightarrow> i = 42" for t i
      using udp [of t] sample_tables by (cases "t = TCP") auto
    then show ?thesis by (auto simp: socket_offers_def)
  qed
  have procs: "process_offers ?gone 42 = {}"
    by (auto simp: process_offers_def scanned_def split: option.splits)
  have owner: "unmissed (pi_mCouldNotFind pidx) (mProcessMap pidx) 42 = Some \<lparr>comm = ''ssh'', proc_pid = 10\<rparr>"
    using pidx by (intro unmissed_process [OF sample_index_ok(1), of sample_host]) (simp add: process_lookup_iff)
  have "SocketIndex_get (env_file sample_host) ?other (mSocketIndex ?r1) =
      (0, \<lparr>mSocketMap = [?h \<mapsto> 42], si_mCouldNotFind = [PacketHash_of_packet ?other \<mapsto> True]\<rparr>)"
    by (simp add: SocketIndex_get_eq si_searchable_def other sample_tables refresh_eq PacketHash_of_socket_def Let_def)
  then have "\<exists>r2. resolver_run ?es ?r1 = Inr r2" by (simp add: ProcessResolver_resolve_def)
  then obtain r2 where r2: "resolver_run ?es ?r1 = Inr r2" by blast
  have "list_all (undisturbed (PacketHash_of_packet sample_pkt) (flow_entry ?r1 (PacketHash_of_packet sample_pkt))) ?es"
    using socks procs owner by (simp add: flow_entry_def sample_pkt_facts unmissed_def [where k = ?h])
  from resolve_repeats [OF resolver_ok_sample r1 key disjI1 [OF sample_pkt_facts(1)] r2 this, of sample_env] r1 r2
  show ?thesis by blast
qed

end
