(* ===== verification/Sniffer.thy ===== *)
theory Sniffer
  imports Process_Resolver Live_Stream
begin

text \<open>
  \<open>src/src/net/Sniffer.cpp\<close> and \<open>SnifferLoop.cpp\<close>: the choice and activation of the network device,
  and the callback that takes a captured frame through the packet constructor, the process resolver
  and the traffic storage. The capture library is a parameter: the device list, the outcome of
  creating and activating a handle, and the frames it delivers.
\<close>

section \<open>State\<close>

record pcap_env =
  findalldevs :: "string list option"
  pcap_create :: "string \<Rightarrow> bool"
  pcap_activate :: "string \<Rightarrow> bool \<Rightarrow> bool \<Rightarrow> int"
  pcap_getifaddrs :: "ifaddr list option"

record Sniffer =
  mIPList :: IPList
  mProcessResolver :: ProcessResolver
  mDevice :: "string option"

section \<open>Operations\<close>

text \<open>\<open>None\<close> is the null pointer; the loop leaves it so when no device has the name.\<close>

fun find_named :: "string list \<Rightarrow> string \<Rightarrow> string option" where
  "find_named [] device = None"
| "find_named (i # is) device = (if i = device then Some i else find_named is device)"

definition first_device :: "string list \<Rightarrow> string option" where
  "first_device devices = (case devices of [] \<Rightarrow> None | d # _ \<Rightarrow> Some d)"

definition findDevice :: "pcap_env \<Rightarrow> string \<Rightarrow> abort + string" where
  "findDevice pcap device =
     (case findalldevs pcap of
        None \<Rightarrow> Inl (Exited 1)
      | Some devices \<Rightarrow>
          (case (if device \<noteq> [] then find_named devices device else first_device devices) of
             None \<Rightarrow> Inl (Exited 1)
           | Some d \<Rightarrow> Inr d))"

text \<open>
  The constructor, on the configured interface, modes and cache size. The results of the calls that
  set the modes are only logged; a result of \<open>pcap_activate\<close> other than 0 ends the program.
\<close>

definition Sniffer_new ::
  "pcap_env \<Rightarrow> proc_env \<Rightarrow> string \<Rightarrow> bool \<Rightarrow> bool \<Rightarrow> i32 \<Rightarrow> abort + Sniffer" where
  "Sniffer_new pcap env interface promiscuous immediate processCacheSize =
     (case ProcessResolver_new env processCacheSize of
        Inl a \<Rightarrow> Inl a
      | Inr resolver \<Rightarrow>
          (case findDevice pcap interface of
             Inl a \<Rightarrow> Inl a
           | Inr device \<Rightarrow>
               if \<not> pcap_create pcap device then Inl (Exited 1)
               else if pcap_activate pcap device immediate promiscuous \<noteq> 0 then Inl (Exited 1)
               else (case IPList_init (pcap_getifaddrs pcap) device IPList_new of
                       Inl a \<Rightarrow> Inl a
                     | Inr l \<Rightarrow> Inr \<lparr>mIPList = l, mProcessResolver = resolver, mDevice = Some device\<rparr>)))"

text \<open>
  \<open>SnifferLoop::pktCallback\<close>, on the sniffer and the traffic storage it refers to.
\<close>

definition pktCallback ::
  "proc_env \<Rightarrow> pcap_pkthdr \<Rightarrow> frame \<Rightarrow> Sniffer \<times> TrafficStorage \<Rightarrow> abort + (Sniffer \<times> TrafficStorage)" where
  "pktCallback env hdr rawPkt = (\<lambda>(s, ts).
     case Packet_new hdr rawPkt (mIPList s) of
       None \<Rightarrow> Inl Undefined
     | Some pkt \<Rightarrow>
         if discard pkt then Inr (s, ts)
         else (case ProcessResolver_resolve env pkt (mProcessResolver s) of
                 Inl a \<Rightarrow> Inl a
               | Inr (process, r) \<Rightarrow>
                   (case TrafficStorage_add process pkt ts of
                      Inl a \<Rightarrow> Inl a
                    | Inr ts' \<Rightarrow> Inr (s\<lparr>mProcessResolver := r\<rparr>, ts'))))"

text \<open>
  \<open>Sniffer::dispatch\<close>: the callback on each captured frame of a batch, with what \<open>/proc\<close> holds at
  that time.
\<close>

fun dispatch :: "(proc_env \<times> pcap_pkthdr \<times> frame) list \<Rightarrow> Sniffer \<times> TrafficStorage \<Rightarrow> abort + (Sniffer \<times> TrafficStorage)" where
  "dispatch [] st = Inr st"
| "dispatch ((env, hdr, raw) # batch) st =
     (case pktCallback env hdr raw st of Inl a \<Rightarrow> Inl a | Inr st' \<Rightarrow> dispatch batch st')"

section \<open>Construction\<close>

definition sniffer_ok :: "Sniffer \<Rightarrow> bool" where
  "sniffer_ok s \<longleftrightarrow> ipl_ok (mIPList s) \<and> resolver_ok (mProcessResolver s)"

lemma find_named_iff: "find_named devices d = (if d \<in> set devices then Some d else None)"
  by (induction devices) auto

lemma findDevice_Inr_iff:
  "findDevice pcap device = Inr d \<longleftrightarrow>
   (\<exists>devices. findalldevs pcap = Some devices \<and> d \<in> set devices \<and>
      d = (if device = [] then hd devices else device))"
  by (auto simp: findDevice_def find_named_iff first_device_def split: option.splits list.splits if_splits)

lemma Sniffer_new_cases:
  assumes "Sniffer_new pcap env interface prom imm n = Inr s"
  obtains d where "findDevice pcap interface = Inr d" "mDevice s = Some d" "pcap_create pcap d"
    "pcap_activate pcap d imm prom = 0" "IPList_init (pcap_getifaddrs pcap) d IPList_new = Inr (mIPList s)"
    "ProcessResolver_new env n = Inr (mProcessResolver s)"
  using assms by (auto simp: Sniffer_new_def split: sum.splits if_splits)

lemma sniffer_ok_new [invariant_intros]:
  assumes "Sniffer_new pcap env interface prom imm n = Inr s"
  shows "sniffer_ok s"
  using assms by (elim Sniffer_new_cases) (simp add: sniffer_ok_def IPList_init_ok resolver_ok_new)

section \<open>The callback\<close>

lemma pktCallback_kept:
  assumes "Packet_new hdr raw (mIPList s) = Some p" "\<not> discard p"
    and "ProcessResolver_resolve env p (mProcessResolver s) = Inr (q, r)"
  shows "pktCallback env hdr raw (s, ts) =
    Inr (s\<lparr>mProcessResolver := r\<rparr>, ts\<lparr>mApplicationTraffic := (mApplicationTraffic ts)
                 (comm q \<mapsto> line_of (mApplicationTraffic ts) (comm q) + contribution p)\<rparr>)"
  using assms by (simp add: pktCallback_def add_eq)

lemma pktCallback_cases:
  assumes "pktCallback env hdr raw (s, ts) = Inr (s', ts')"
  obtains (discarded) p where "Packet_new hdr raw (mIPList s) = Some p" "discard p" "s' = s" "ts' = ts"
  | (kept) p q r where "Packet_new hdr raw (mIPList s) = Some p" "\<not> discard p"
      "ProcessResolver_resolve env p (mProcessResolver s) = Inr (q, r)"
      "s' = s\<lparr>mProcessResolver := r\<rparr>"
      "ts' = ts\<lparr>mApplicationTraffic := (mApplicationTraffic ts)
                 (comm q \<mapsto> line_of (mApplicationTraffic ts) (comm q) + contribution p)\<rparr>"
proof (cases "Packet_new hdr raw (mIPList s)")
  case None
  with assms show thesis by (simp add: pktCallback_def)
next
  case (Some p)
  show thesis
  proof (cases "discard p")
    case True
    with Some assms show thesis by (intro discarded [of p]) (simp_all add: pktCallback_def)
  next
    case False
    with Some assms obtain q r where r: "ProcessResolver_resolve env p (mProcessResolver s) = Inr (q, r)"
      by (auto simp: pktCallback_def split: sum.splits)
    with pktCallback_kept [OF Some False r, of ts] assms Some False show thesis
      by (intro kept [of p q r]) simp_all
  qed
qed

lemma line_of_upd: "line_of (m(n \<mapsto> line_of m n + c)) name = line_of m name + (if name = n then c else 0)"
  by (simp add: line_of_def)

lemma sniffer_ok_callback [invariant_intros]:
  assumes "sniffer_ok s" "pktCallback env hdr raw (s, ts) = Inr (s', ts')"
  shows "sniffer_ok s' \<and> mIPList s' = mIPList s"
  using assms(2)
proof (cases rule: pktCallback_cases)
  case (kept p q r)
  with assms(1) resolver_ok_resolve [OF _ kept(3)] show ?thesis by (simp add: sniffer_ok_def)
qed (use assms(1) in simp)

lemma discard_iff:
  "sniffer_ok s \<Longrightarrow> Packet_new hdr raw (mIPList s) = Some p \<Longrightarrow> discard p \<longleftrightarrow> \<not> packet_ok (addresses (mIPList s)) p"
  using Packet_new_discard_iff by (auto simp: sniffer_ok_def)

text \<open>
  C8. A captured frame changes the traffic of one application at most: a packet that is not of use
  changes nothing, any other adds its contribution to the application the indexes attribute it to
  (the placeholder included) and leaves every other application as it was.
\<close>

theorem pktCallback_attributes:
  assumes "sniffer_ok s" "pktCallback env hdr raw (s, ts) = Inr (s', ts')"
    and "Packet_new hdr raw (mIPList s) = Some p"
  shows "if packet_ok (addresses (mIPList s)) p
    then line_of (mApplicationTraffic ts') name = line_of (mApplicationTraffic ts) name +
           (if name = comm (attributed (mProcessResolver s') p) then contribution p else 0)
    else s' = s \<and> ts' = ts"
  using assms(2)
proof (cases rule: pktCallback_cases)
  case (discarded p')
  with discard_iff [OF assms(1,3)] assms(3) show ?thesis by simp
next
  case (kept p' q r)
  from assms(1) have "resolver_ok (mProcessResolver s)" by (simp add: sniffer_ok_def)
  from resolve_attributed [OF this kept(3)] kept(4) have "q = attributed (mProcessResolver s') p'" by simp
  with kept discard_iff [OF assms(1,3)] assms(3) show ?thesis by (simp add: line_of_upd)
qed

section \<open>A batch of frames\<close>

fun kept_packets :: "IPList \<Rightarrow> (proc_env \<times> pcap_pkthdr \<times> frame) list \<Rightarrow> Packet list" where
  "kept_packets l [] = []"
| "kept_packets l ((env, hdr, raw) # batch) =
     (case Packet_new hdr raw l of
        None \<Rightarrow> kept_packets l batch
      | Some p \<Rightarrow> (if packet_ok (addresses l) p then [p] else []) @ kept_packets l batch)"

definition total :: "TrafficMap \<Rightarrow> TrafficLine" where
  "total m = (\<Sum>n\<in>dom m. line_of m n)"

lemma total_upd:
  assumes "finite (dom m)"
  shows "total (m(n \<mapsto> line_of m n + c)) = total m + c"
proof -
  have rest: "(\<Sum>k\<in>dom m - {n}. line_of (m(n \<mapsto> line_of m n + c)) k) = (\<Sum>k\<in>dom m - {n}. line_of m k)"
    by (rule sum.cong) (simp_all add: line_of_def)
  have "total (m(n \<mapsto> line_of m n + c)) =
      line_of (m(n \<mapsto> line_of m n + c)) n + (\<Sum>k\<in>dom m - {n}. line_of (m(n \<mapsto> line_of m n + c)) k)"
    unfolding total_def using assms by (subst sum.insert_remove [symmetric]) simp_all
  also have "\<dots> = c + (line_of m n + (\<Sum>k\<in>dom m - {n}. line_of m k))"
    unfolding rest line_of_upd [of m n c n] by (simp add: ac_simps)
  also have "line_of m n + (\<Sum>k\<in>dom m - {n}. line_of m k) = total m"
  proof (cases "n \<in> dom m")
    case True
    with assms show ?thesis by (simp add: total_def sum.remove)
  next
    case False
    then have "line_of m n = 0" by (auto simp: line_of_def split: option.splits)
    with False show ?thesis by (simp add: total_def)
  qed
  finally show ?thesis unfolding add.commute [of "total m" c] .
qed

text \<open>
  Every packet of use is counted exactly once: whatever the indexes make of the packets of a
  batch, the traffic of all applications together grows by the contributions of the packets that
  were not discarded, and by nothing else.
\<close>

theorem dispatch_total:
  assumes "sniffer_ok s" "finite (dom (mApplicationTraffic ts))" "dispatch batch (s, ts) = Inr (s', ts')"
  shows "total (mApplicationTraffic ts') =
      total (mApplicationTraffic ts) + sum_list (map contribution (kept_packets (mIPList s) batch))"
  using assms
proof (induction batch arbitrary: s ts)
  case (Cons x batch)
  obtain env hdr raw where x: "x = (env, hdr, raw)" by (cases x)
  with Cons.prems(3) obtain t us where c: "pktCallback env hdr raw (s, ts) = Inr (t, us)"
    and d: "dispatch batch (t, us) = Inr (s', ts')"
    by (auto split: sum.splits)
  from sniffer_ok_callback [OF Cons.prems(1) c] have t: "sniffer_ok t" "mIPList t = mIPList s" by simp_all
  from c show ?case
  proof (cases rule: pktCallback_cases)
    case (discarded p)
    with Cons.IH [OF t(1) _ d] Cons.prems t x discard_iff [OF Cons.prems(1) discarded(1)] show ?thesis by simp
  next
    case (kept p q r)
    then have us: "mApplicationTraffic us =
        (mApplicationTraffic ts)(comm q \<mapsto> line_of (mApplicationTraffic ts) (comm q) + contribution p)" by simp
    have "finite (dom (mApplicationTraffic us))" unfolding us using Cons.prems(2) by simp
    note IH = Cons.IH [OF t(1) this d]
    have "total (mApplicationTraffic us) = total (mApplicationTraffic ts) + contribution p"
      unfolding us by (rule total_upd [OF Cons.prems(2)])
    with IH kept(1,2) t(2) x discard_iff [OF Cons.prems(1) kept(1)]
    show ?thesis by (simp add: add.assoc)
  qed
qed simp

section \<open>A flow and its application\<close>

text \<open>
  C7. Request and reply are accounted to the same application: when a frame of a TCP or UDP flow was
  accounted and the next frame runs the other way, the reply is accounted to the application of
  the request without any change to the indexes, whatever \<open>/proc\<close> holds by then.
\<close>

theorem flow_same_application:
  assumes "sniffer_ok s" "pktCallback env hdr raw (s, ts) = Inr (s1, ts1)"
    and "Packet_new hdr raw (mIPList s) = Some p" "\<not> discard p" "pkt_type p = TCP \<or> pkt_type p = UDP"
    and "Packet_new hdr' raw' (mIPList s) = Some q" "\<not> discard q"
    and "protocol q = protocol p" "sip q = dip p" "dip q = sip p" "sport q = dport p" "dport q = sport p"
    and "(sip p \<in> addresses (mIPList s)) \<noteq> (dip p \<in> addresses (mIPList s))"
  shows "\<exists>name ts2. pktCallback env' hdr' raw' (s1, ts1) = Inr (s1, ts2) \<and>
    (\<forall>n. line_of (mApplicationTraffic ts2) n =
           line_of (mApplicationTraffic ts) n + (if n = name then contribution p + contribution q else 0))"
  using assms(2)
proof (cases rule: pktCallback_cases)
  case (discarded p')
  with assms(3,4) show ?thesis by simp
next
  case (kept p' x r)
  have p': "p' = p" using kept(1) assms(3) by simp
  have ok: "packet_ok (addresses (mIPList s)) p" "packet_ok (addresses (mIPList s)) q"
    using discard_iff [OF assms(1)] assms(3,4,6,7) by simp_all
  note key = flow_key [OF ok assms(8-13)]
  from assms(1) have "resolver_ok (mProcessResolver s)" by (simp add: sniffer_ok_def)
  then have "ProcessResolver_resolve env' q r = Inr (x, r)"
    using resolve_again [OF _ kept(3), of q env'] key(1) assms(5) p' by simp
  then have r: "ProcessResolver_resolve env' q (mProcessResolver s1) = Inr (x, r)"
    using kept(4) by simp
  have q: "Packet_new hdr' raw' (mIPList s1) = Some q" using assms(6) kept(4) by simp
  have s1: "s1\<lparr>mProcessResolver := r\<rparr> = s1" using kept(4) by simp
  let ?ts = "ts1\<lparr>mApplicationTraffic := (mApplicationTraffic ts1)
      (comm x \<mapsto> line_of (mApplicationTraffic ts1) (comm x) + contribution q)\<rparr>"
  have "pktCallback env' hdr' raw' (s1, ts1) = Inr (s1, ?ts)"
    using pktCallback_kept [OF q assms(7) r, of ts1] unfolding s1 .
  moreover have "line_of (mApplicationTraffic ?ts) n =
      line_of (mApplicationTraffic ts) n + (if n = comm x then contribution p + contribution q else 0)" for n
    using kept(5) p' by (simp add: line_of_upd add.assoc)
  ultimately show ?thesis by blast
qed

text \<open>
  A sniffer that was constructed listens to a device of the machine, the configured one or the first
  one when none is configured, knows the addresses of that device, and is in a state in which the
  other properties hold.
\<close>

theorem Sniffer_new_selects:
  assumes "Sniffer_new pcap env interface prom imm n = Inr s"
  shows "sniffer_ok s \<and>
    (\<exists>devices ifs d. findalldevs pcap = Some devices \<and> d \<in> set devices \<and> mDevice s = Some d \<and>
      d = (if interface = [] then hd devices else interface) \<and>
      pcap_getifaddrs pcap = Some ifs \<and> length (device_addresses d ifs) \<le> 64 \<and>
      (\<forall>ip. IPList_contains (mIPList s) ip \<longleftrightarrow>
         ip \<in> set (if device_addresses d ifs = [] then [0] else device_addresses d ifs)))"
proof
  show ok: "sniffer_ok s" using assms by (rule sniffer_ok_new)
  from assms obtain d where d: "findDevice pcap interface = Inr d" "mDevice s = Some d"
    and l: "IPList_init (pcap_getifaddrs pcap) d IPList_new = Inr (mIPList s)"
    by (rule Sniffer_new_cases)
  from l obtain ifs where ifs: "pcap_getifaddrs pcap = Some ifs"
    by (auto simp: IPList_init_def split: option.splits)
  note facts = IPList_init_facts [OF l [unfolded ifs]]
  from d(1) obtain devices where "findalldevs pcap = Some devices" "d \<in> set devices"
    "d = (if interface = [] then hd devices else interface)"
    unfolding findDevice_Inr_iff by blast
  with d(2) ifs facts(1) ipl.contains_iff [OF facts(2)] facts(3)
  show "\<exists>devices ifs d. findalldevs pcap = Some devices \<and> d \<in> set devices \<and> mDevice s = Some d \<and>
      d = (if interface = [] then hd devices else interface) \<and>
      pcap_getifaddrs pcap = Some ifs \<and> length (device_addresses d ifs) \<le> 64 \<and>
      (\<forall>ip. IPList_contains (mIPList s) ip \<longleftrightarrow>
         ip \<in> set (if device_addresses d ifs = [] then [0] else device_addresses d ifs))"
    by (metis (no_types))
qed

section \<open>Instances\<close>

definition sample_sniffer :: Sniffer where
  "sample_sniffer = \<lparr>mIPList = sample_list, mProcessResolver = sample_resolver, mDevice = Some ''eth0''\<rparr>"

lemma sample_sniffer_ok: "sniffer_ok sample_sniffer"
  by (simp add: sniffer_ok_def sample_sniffer_def ipl_ok_sample resolver_ok_sample)

abbreviation sample_hdr :: pcap_pkthdr where
  "sample_hdr \<equiv> \<lparr>ts_sec = 7, hdr_len = 60\<rparr>"

abbreviation sample_raw :: frame where
  "sample_raw \<equiv> sample_frame 0x08080808 0x0500000A 443 50000"

abbreviation reply_raw :: frame where
  "reply_raw \<equiv> sample_frame 0x0500000A 0x08080808 50000 443"

abbreviation reply_pkt :: Packet where
  "reply_pkt \<equiv> sample_packet 0x0500000A 0x08080808 50000 443"

lemma sample_new: "Packet_new sample_hdr sample_raw (mIPList sample_sniffer) = Some sample_pkt"
  "Packet_new sample_hdr reply_raw (mIPList sample_sniffer) = Some reply_pkt"
  by (simp_all add: sample_sniffer_def sample_loads)

lemma sample_pkt_ok: "packet_ok (addresses (mIPList sample_sniffer)) sample_pkt"
  "\<not> discard sample_pkt" "\<not> discard reply_pkt"
  by (simp_all add: sample_sniffer_def addresses_sample packet_ok_def sample_packet_def expected_packet_def
      local_direction_def)

lemma sample_callback:
  "\<exists>s. pktCallback sample_host sample_hdr sample_raw (sample_sniffer, TrafficStorage_new 10) =
     Inr (s, (TrafficStorage_new 10)\<lparr>mApplicationTraffic := [''ssh'' \<mapsto> contribution sample_pkt]\<rparr>)"
proof -
  obtain r where "ProcessResolver_resolve sample_host sample_pkt (mProcessResolver sample_sniffer) =
      Inr (\<lparr>comm = ''ssh'', proc_pid = 10\<rparr>, r)"
    using sample_resolve by (auto simp: sample_sniffer_def)
  from pktCallback_kept [OF sample_new(1) sample_pkt_ok(2) this] show ?thesis
    by (auto simp: TrafficStorage_new_def)
qed

theorem pktCallback_attributes_witness:
  "\<exists>s ts. pktCallback sample_host sample_hdr sample_raw (sample_sniffer, TrafficStorage_new 10) = Inr (s, ts) \<and>
     line_of (mApplicationTraffic ts) (comm (attributed (mProcessResolver s) sample_pkt)) = contribution sample_pkt"
proof -
  obtain s ts where c: "pktCallback sample_host sample_hdr sample_raw (sample_sniffer, TrafficStorage_new 10) = Inr (s, ts)"
    using sample_callback by blast
  with pktCallback_attributes [OF sample_sniffer_ok c sample_new(1), of "comm (attributed (mProcessResolver s) sample_pkt)"]
    sample_pkt_ok(1)
  show ?thesis by (auto simp: TrafficStorage_new_def)
qed

theorem dispatch_total_witness:
  "\<exists>s ts. dispatch [(sample_host, sample_hdr, sample_raw)] (sample_sniffer, TrafficStorage_new 10) = Inr (s, ts) \<and>
     total (mApplicationTraffic ts) = contribution sample_pkt"
proof -
  obtain s ts where "pktCallback sample_host sample_hdr sample_raw (sample_sniffer, TrafficStorage_new 10) = Inr (s, ts)"
    using sample_callback by blast
  then have d: "dispatch [(sample_host, sample_hdr, sample_raw)] (sample_sniffer, TrafficStorage_new 10) = Inr (s, ts)"
    by simp
  have "finite (dom (mApplicationTraffic (TrafficStorage_new 10)))" by (simp add: TrafficStorage_new_def)
  from dispatch_total [OF sample_sniffer_ok this d] d sample_new(1) sample_pkt_ok(1)
  show ?thesis by (simp add: TrafficStorage_new_def total_def)
qed

theorem flow_same_application_witness:
  "\<exists>s ts ts2 name. pktCallback sample_host sample_hdr sample_raw (sample_sniffer, TrafficStorage_new 10) = Inr (s, ts) \<and>
     pktCallback sample_env sample_hdr reply_raw (s, ts) = Inr (s, ts2) \<and>
     line_of (mApplicationTraffic ts2) name = contribution sample_pkt + contribution reply_pkt"
proof -
  obtain s ts where c: "pktCallback sample_host sample_hdr sample_raw (sample_sniffer, TrafficStorage_new 10) = Inr (s, ts)"
    using sample_callback by blast
  have sides: "protocol reply_pkt = protocol sample_pkt" "sip reply_pkt = dip sample_pkt" "dip reply_pkt = sip sample_pkt"
    "sport reply_pkt = dport sample_pkt" "dport reply_pkt = sport sample_pkt"
    "(sip sample_pkt \<in> addresses (mIPList sample_sniffer)) \<noteq> (dip sample_pkt \<in> addresses (mIPList sample_sniffer))"
    by (simp_all add: sample_sniffer_def addresses_sample sample_packet_def expected_packet_def local_direction_def)
  obtain name ts2 where r: "pktCallback sample_env sample_hdr reply_raw (s, ts) = Inr (s, ts2)"
    and l: "\<forall>n. line_of (mApplicationTraffic ts2) n = line_of (mApplicationTraffic (TrafficStorage_new 10)) n +
        (if n = name then contribution sample_pkt + contribution reply_pkt else 0)"
    using flow_same_application [OF sample_sniffer_ok c sample_new(1) sample_pkt_ok(2) disjI1 [OF sample_pkt_facts(1)]
        sample_new(2) sample_pkt_ok(3) sides, of sample_env]
    by blast
  from l have "line_of (mApplicationTraffic ts2) name = contribution sample_pkt + contribution reply_pkt"
    by (simp add: TrafficStorage_new_def)
  with c r show ?thesis by blast
qed

theorem Sniffer_new_selects_witness:
  "\<exists>s. Sniffer_new \<lparr>findalldevs = Some [''lo'', ''eth0''], pcap_create = \<lambda>_. True, pcap_activate = \<lambda>_ _ _. 0,
        pcap_getifaddrs = Some [\<lparr>ifa_name = ''eth0'', ifa_addr = Some 0x0500000A\<rparr>]\<rparr>
       (sample_env\<lparr>env_procdir := Some [], env_file := \<lambda>_. None\<rparr>) ''eth0'' False True 5 = Inr s \<and>
     mDevice s = Some ''eth0'' \<and> IPList_contains (mIPList s) 0x0500000A"
proof -
  let ?pcap = "\<lparr>findalldevs = Some [''lo'', ''eth0''], pcap_create = \<lambda>_. True, pcap_activate = \<lambda>_ _ _. 0,
      pcap_getifaddrs = Some [\<lparr>ifa_name = ''eth0'', ifa_addr = Some 0x0500000A\<rparr>]\<rparr>"
  let ?env = "sample_env\<lparr>env_procdir := Some [], env_file := \<lambda>_. None\<rparr>"
  have "\<exists>s. Sniffer_new ?pcap ?env ''eth0'' False True 5 = Inr s"
    by (simp add: Sniffer_new_def ProcessResolver_new_def ProcessIndex_new_def ProcessIndex_refresh_def findDevice_def
        IPList_init_eq)
  then obtain s where s: "Sniffer_new ?pcap ?env ''eth0'' False True 5 = Inr s" by blast
  from Sniffer_new_selects [OF s] have "mDevice s = Some ''eth0''" "IPList_contains (mIPList s) 0x0500000A"
    by (auto simp: device_addresses_def)
  with s show ?thesis by blast
qed

end
