(* ===== verification/Argument_Parser.thy ===== *)
theory Argument_Parser
  imports Cxx_Std
begin

text \<open>
  \<open>src/src/config/ArgumentParser.cpp\<close>: the command line. Parsing ends the program with status 0 for
  the help text and with status 2 for anything that is no option, a missing or a bad value. Whether a
  path names a regular file is asked of the file system, an argument.
\<close>

section \<open>The parser\<close>

record ArgumentParser =
  arg_daemon :: bool
  arg_debug :: bool
  arg_configPath :: string
  arg_interval :: "i32 option"
  arg_interface :: "string option"
  arg_dbPath :: "string option"
  arg_serverPort :: "u16 option"

definition ArgumentParser_init :: ArgumentParser where
  "ArgumentParser_init =
     \<lparr>arg_daemon = False, arg_debug = False, arg_configPath = [], arg_interval = None,
      arg_interface = None, arg_dbPath = None, arg_serverPort = None\<rparr>"

text \<open>The loop over the arguments; the conversion of the port to 16 bits is the assignment's.\<close>

fun parse_args :: "(string \<Rightarrow> bool) \<Rightarrow> string list \<Rightarrow> ArgumentParser \<Rightarrow> abort + ArgumentParser" where
  "parse_args is_regular_file [] a = Inr a"
| "parse_args is_regular_file (arg # rest) a =
     (if arg = ''-h'' \<or> arg = ''--help'' then Inl (Exited 0)
      else if arg = ''--daemon'' then parse_args is_regular_file rest (a\<lparr>arg_daemon := True\<rparr>)
      else if arg = ''-x'' \<or> arg = ''--debug'' then parse_args is_regular_file rest (a\<lparr>arg_debug := True\<rparr>)
      else if arg = ''-i'' \<or> arg = ''--interval'' then
        (case rest of
           [] \<Rightarrow> Inl (Exited 2)
         | v # rest' \<Rightarrow>
             (case stoi v of
                Inl _ \<Rightarrow> Inl (Exited 2)
              | Inr n \<Rightarrow> parse_args is_regular_file rest' (a\<lparr>arg_interval := Some n\<rparr>)))
      else if arg = ''-p'' \<or> arg = ''--port'' then
        (case rest of
           [] \<Rightarrow> Inl (Exited 2)
         | v # rest' \<Rightarrow>
             (case stoi v of
                Inl _ \<Rightarrow> Inl (Exited 2)
              | Inr n \<Rightarrow> parse_args is_regular_file rest' (a\<lparr>arg_serverPort := Some (ucast n)\<rparr>)))
      else if arg = ''-c'' \<or> arg = ''--config'' then
        (case rest of
           [] \<Rightarrow> Inl (Exited 2)
         | v # rest' \<Rightarrow>
             if is_regular_file v then parse_args is_regular_file rest' (a\<lparr>arg_configPath := v\<rparr>)
             else Inl (Exited 2))
      else if arg = ''--interface'' then
        (case rest of
           [] \<Rightarrow> Inl (Exited 2)
         | v # rest' \<Rightarrow> parse_args is_regular_file rest' (a\<lparr>arg_interface := Some v\<rparr>))
      else if arg = ''--db-path'' then
        (case rest of
           [] \<Rightarrow> Inl (Exited 2)
         | v # rest' \<Rightarrow> parse_args is_regular_file rest' (a\<lparr>arg_dbPath := Some v\<rparr>))
      else Inl (Exited 2))"

declare parse_args.simps(2) [simp del]

text \<open>\<open>argv + 1\<close> to \<open>argv + argc\<close>.\<close>

definition ArgumentParser_new :: "(string \<Rightarrow> bool) \<Rightarrow> string list \<Rightarrow> abort + ArgumentParser" where
  "ArgumentParser_new is_regular_file argv = parse_args is_regular_file (tl argv) ArgumentParser_init"

section \<open>Options\<close>

datatype cli_option = Daemon | Debug | Interval i32 | Port u16 | ConfigPath string | Interface string | DbPath string

text \<open>An option as it is written, in its short or its long form where it has both.\<close>

definition show_option :: "bool \<Rightarrow> cli_option \<Rightarrow> string list" where
  "show_option long opt =
     (case opt of
        Daemon \<Rightarrow> [''--daemon'']
      | Debug \<Rightarrow> [if long then ''--debug'' else ''-x'']
      | Interval n \<Rightarrow> [if long then ''--interval'' else ''-i'', to_string (sint n)]
      | Port p \<Rightarrow> [if long then ''--port'' else ''-p'', to_string (uint p)]
      | ConfigPath v \<Rightarrow> [if long then ''--config'' else ''-c'', v]
      | Interface v \<Rightarrow> [''--interface'', v]
      | DbPath v \<Rightarrow> [''--db-path'', v])"

fun apply_option :: "cli_option \<Rightarrow> ArgumentParser \<Rightarrow> ArgumentParser" where
  "apply_option Daemon a = a\<lparr>arg_daemon := True\<rparr>"
| "apply_option Debug a = a\<lparr>arg_debug := True\<rparr>"
| "apply_option (Interval n) a = a\<lparr>arg_interval := Some n\<rparr>"
| "apply_option (Port p) a = a\<lparr>arg_serverPort := Some p\<rparr>"
| "apply_option (ConfigPath v) a = a\<lparr>arg_configPath := v\<rparr>"
| "apply_option (Interface v) a = a\<lparr>arg_interface := Some v\<rparr>"
| "apply_option (DbPath v) a = a\<lparr>arg_dbPath := Some v\<rparr>"

definition option_ok :: "(string \<Rightarrow> bool) \<Rightarrow> cli_option \<Rightarrow> bool" where
  "option_ok is_regular_file opt = (case opt of ConfigPath v \<Rightarrow> is_regular_file v | _ \<Rightarrow> True)"

lemma stoi_port: "stoi (to_string (uint (p :: u16))) = Inr (ucast p :: i32)"
proof -
  have "- 2147483648 \<le> uint p" by (rule order_trans [OF _ unsigned_greater_eq]) simp
  moreover have "uint p < 2 ^ LENGTH(16)" by (rule unsigned_less)
  ultimately have "sint (ucast p :: i32) = uint p"
    by (simp add: signed_ucast_eq signed_take_bit_int_eq_self_iff)
  with stoi_to_string_end [of "ucast p"] show ?thesis by simp
qed

lemma ucast_u16_i32 [simp]: "ucast (ucast (p :: u16) :: i32) = p"
  by (rule bit_word_eqI) (simp add: bit_simps)

lemma parse_option:
  assumes "option_ok f opt"
  shows "parse_args f (show_option long opt @ rest) a = parse_args f rest (apply_option opt a)"
  using assms by (cases opt) (simp_all add: show_option_def option_ok_def parse_args.simps(2) stoi_port)

lemma parse_options:
  assumes "\<forall>x\<in>set opts. option_ok f (snd x)"
  shows "parse_args f (concat (map (\<lambda>(long, opt). show_option long opt) opts) @ rest) a =
    parse_args f rest (fold apply_option (map snd opts) a)"
  using assms by (induction opts arbitrary: a) (auto simp: parse_option)

definition flag_words :: "string list" where
  "flag_words = [''--daemon'', ''-x'', ''--debug'']"

definition value_words :: "string list" where
  "value_words = [''-i'', ''--interval'', ''-p'', ''--port'', ''-c'', ''--config'', ''--interface'', ''--db-path'']"

definition help_words :: "string list" where
  "help_words = [''-h'', ''--help'']"

lemma parse_tail:
  "word \<in> set help_words \<Longrightarrow> parse_args f (word # ws) a = Inl (Exited 0)"
  "word \<notin> set (help_words @ flag_words @ value_words) \<Longrightarrow> parse_args f (word # ws) a = Inl (Exited 2)"
  "word \<in> set value_words \<Longrightarrow> parse_args f [word] a = Inl (Exited 2)"
  by (auto simp: parse_args.simps(2) help_words_def flag_words_def value_words_def)

text \<open>
  C35. The command line: a sequence of options in either form sets exactly the values it names, a later
  option overriding an earlier one; what follows it decides the rest: nothing, the help word (status 0),
  a word that is no option (status 2), or an option without its value (status 2).
\<close>

theorem ArgumentParser_new_options:
  assumes "\<forall>x\<in>set opts. option_ok f (snd x)"
    and "shown = concat (map (\<lambda>(long, opt). show_option long opt) opts)"
  shows "ArgumentParser_new f (prog # shown) = Inr (fold apply_option (map snd opts) ArgumentParser_init) \<and>
    (word \<in> set help_words \<longrightarrow> ArgumentParser_new f (prog # shown @ word # ws) = Inl (Exited 0)) \<and>
    (word \<notin> set (help_words @ flag_words @ value_words) \<longrightarrow>
      ArgumentParser_new f (prog # shown @ word # ws) = Inl (Exited 2)) \<and>
    (word \<in> set value_words \<longrightarrow> ArgumentParser_new f (prog # shown @ [word]) = Inl (Exited 2))"
proof -
  have "ArgumentParser_new f (prog # shown @ rest) =
      parse_args f rest (fold apply_option (map snd opts) ArgumentParser_init)" for rest
    using parse_options [OF assms(1)] by (simp add: ArgumentParser_new_def assms(2))
  from this [of "[]"] this parse_tail show ?thesis by auto
qed

theorem ArgumentParser_new_options_witness:
  "ArgumentParser_new (\<lambda>_. True) [''ntmd'', ''--daemon'', ''-i'', ''30'', ''-p'', ''80'', ''--port'', ''90''] =
     Inr \<lparr>arg_daemon = True, arg_debug = False, arg_configPath = [], arg_interval = Some 30,
          arg_interface = None, arg_dbPath = None, arg_serverPort = Some 90\<rparr> \<and>
   ArgumentParser_new (\<lambda>_. True) [''ntmd'', ''--daemon'', ''--help''] = Inl (Exited 0)"
proof -
  let ?opts = "[(True, Daemon), (False, Interval 30), (False, Port 80), (True, Port 90)]"
  have strings: "to_string 30 = ''30''" "to_string 80 = ''80''" "to_string 90 = ''90''"
    by code_simp+
  have "ArgumentParser_new (\<lambda>_. True) [''ntmd'', ''--daemon'', ''-i'', ''30'', ''-p'', ''80'', ''--port'', ''90''] =
     Inr \<lparr>arg_daemon = True, arg_debug = False, arg_configPath = [], arg_interval = Some 30,
          arg_interface = None, arg_dbPath = None, arg_serverPort = Some 90\<rparr>"
    using ArgumentParser_new_options [of ?opts "\<lambda>_. True", OF _ refl, where prog = "''ntmd''"]
    by (simp add: option_ok_def show_option_def strings ArgumentParser_init_def)
  moreover have "ArgumentParser_new (\<lambda>_. True) [''ntmd'', ''--daemon'', ''--help''] = Inl (Exited 0)"
    using ArgumentParser_new_options [of "[(True, Daemon)]" "\<lambda>_. True", OF _ refl, where prog = "''ntmd''" and
        word = "''--help''" and ws = "[]"]
    by (simp add: option_ok_def show_option_def help_words_def)
  ultimately show ?thesis ..
qed

end
