(* ===== verification/Config.thy ===== *)
theory Config
  imports String_Util Argument_Parser
begin

text \<open>
  \<open>src/src/config/Config.cpp\<close>: the configuration file. It is read into a table of items, the known
  items are converted, a bad value leaves the default, and the file is written back with all values,
  so that new items appear in it. The file system is an argument.
\<close>

section \<open>State\<close>

record Config =
  cfg_interval :: i32
  cfg_interface :: string
  cfg_promiscuous :: bool
  cfg_immediate :: bool
  cfg_dbPath :: string
  cfg_processCacheSize :: i32
  cfg_serverPort :: u16
  mFilePath :: string

definition Config_init :: Config where
  "Config_init = \<lparr>cfg_interval = 10, cfg_interface = [], cfg_promiscuous = False, cfg_immediate = False,
     cfg_dbPath = [], cfg_processCacheSize = 5, cfg_serverPort = 13889, mFilePath = []\<rparr>"

record config_env =
  env_regular_file :: "string \<Rightarrow> bool"
  env_config_file :: "string \<Rightarrow> string option"
  env_writable :: "string \<Rightarrow> bool"

type_synonym items = "string \<rightharpoonup> string"

section \<open>Reading\<close>

definition config_line :: "string \<Rightarrow> items \<Rightarrow> abort + items" where
  "config_line line items =
     (if line = [] \<or> hd line = CHR ''#'' \<or> hd line = CHR ''['' then Inr items
      else if CHR ''='' \<in> set line then
        (case trim (takeWhile (\<lambda>c. c \<noteq> CHR ''='') line) of
           Inl a \<Rightarrow> Inl a
         | Inr key \<Rightarrow> (case trim (tl (dropWhile (\<lambda>c. c \<noteq> CHR ''='') line)) of
             Inl a \<Rightarrow> Inl a
           | Inr value \<Rightarrow> Inr (items(key \<mapsto> value))))
      else Inr items)"

fun config_lines :: "string list \<Rightarrow> items \<Rightarrow> abort + items" where
  "config_lines [] items = Inr items"
| "config_lines (line # lines) items =
     (case config_line line items of Inl a \<Rightarrow> Inl a | Inr items' \<Rightarrow> config_lines lines items')"

definition config_items :: "string \<Rightarrow> abort + items" where
  "config_items content = config_lines (lines_of content) Map.empty"

text \<open>The conversions, each with the default it keeps when there is no item or its value is bad.\<close>

definition item_int :: "i32 \<Rightarrow> string option \<Rightarrow> i32" where
  "item_int d v = (case v of None \<Rightarrow> d | Some t \<Rightarrow> (case stoi t of Inl _ \<Rightarrow> d | Inr n \<Rightarrow> n))"

definition item_port :: "u16 \<Rightarrow> string option \<Rightarrow> u16" where
  "item_port d v = (case v of None \<Rightarrow> d | Some t \<Rightarrow> (case stoi t of Inl _ \<Rightarrow> d | Inr n \<Rightarrow> ucast n))"

definition item_bool :: "bool \<Rightarrow> string option \<Rightarrow> bool" where
  "item_bool d v = (case v of None \<Rightarrow> d | Some t \<Rightarrow> (case stringToBool (strToLower t) of Inl _ \<Rightarrow> d | Inr b \<Rightarrow> b))"

definition item_text :: "string \<Rightarrow> string option \<Rightarrow> string" where
  "item_text d v = (case v of None \<Rightarrow> d | Some t \<Rightarrow> t)"

definition read_items :: "items \<Rightarrow> Config \<Rightarrow> Config" where
  "read_items items c = c\<lparr>
     cfg_interval := item_int (cfg_interval c) (items ''interval''),
     cfg_interface := item_text (cfg_interface c) (items ''interface''),
     cfg_promiscuous := item_bool (cfg_promiscuous c) (items ''promiscuous''),
     cfg_immediate := item_bool (cfg_immediate c) (items ''immediate''),
     cfg_dbPath := item_text (cfg_dbPath c) (items ''dbPath''),
     cfg_serverPort := item_port (cfg_serverPort c) (items ''port''),
     cfg_processCacheSize := item_int (cfg_processCacheSize c) (items ''processCacheSize'')\<rparr>"

section \<open>Writing\<close>

text \<open>The kinds of lines of a configuration file.\<close>

datatype config_entry = Empty | Comment string | Section string | Item string string

fun show_entry :: "config_entry \<Rightarrow> string" where
  "show_entry Empty = []"
| "show_entry (Comment t) = CHR ''#'' # t"
| "show_entry (Section t) = ''['' @ t @ '']''"
| "show_entry (Item k v) = k @ '' = '' @ v"

definition show_bool :: "bool \<Rightarrow> string" where
  "show_bool b = (if b then ''true'' else ''false'')"

definition config_entries :: "Config \<Rightarrow> config_entry list" where
  "config_entries c = [
     Comment ''ntmd generated config file.'', Empty,
     Section ''ntmd'', Empty,
     Comment ''Interval in seconds at which buffered network traffic in memory will be deposited to database.'',
     Comment ''Must be an integer value.'',
     Item ''interval'' (to_string (sint (cfg_interval c))), Empty,
     Comment ''Size for the process index LRU cache, leave default if unsure.'',
     Comment ''If you expect for many longrunning programs to use sockets frequently, increase the cache size to include those programs.'',
     Comment ''If you expect for many new programs to spawn, create sockets, then close (per second), you may want a lower cache size or none at all (0).'',
     Comment ''In most cases the default will be good for both situations.'',
     Item ''processCacheSize'' (to_string (sint (cfg_processCacheSize c))),
     Empty,
     Section ''network'', Empty,
     Comment ''Network interface to be search for for ntmd to monitor traffic on. If value left empty ntmd will use the first device found.'',
     Comment ''An example network interface could be eth0'',
     Item ''interface'' (cfg_interface c),
     Empty,
     Section ''pcap'', Empty,
     Comment ''Enable or disable promiscuous mode while sniffing packets.'',
     Item ''promiscuous'' (show_bool (cfg_promiscuous c)), Empty,
     Comment ''Enable or disable immediate mode while sniffing packets.'',
     Comment ''Immediate mode turned on will greatly increase average CPU usage but may decrease the amount of unmatched packets.'',
     Item ''immediate'' (show_bool (cfg_immediate c)),
     Empty,
     Section ''database'', Empty,
     Comment ''Path to the database file that will be used for reading and writing application network traffic.'',
     Comment ''If left empty the default for is /var/lib/ntmd.db'',
     Item ''dbPath'' (cfg_dbPath c),
     Empty,
     Section ''api'', Empty,
     Comment ''Port for socket server to be hosted on (16 bit unsigned).'',
     Item ''port'' (to_string (uint (cfg_serverPort c)))]"

definition config_text :: "Config \<Rightarrow> string" where
  "config_text c = unlines (map show_entry (config_entries c))"

definition writeConfig :: "config_env \<Rightarrow> Config \<Rightarrow> abort + (Config \<times> string)" where
  "writeConfig env c = (if env_writable env (mFilePath c) then Inr (c, config_text c) else Inl (Exited 1))"

section \<open>Construction and merging\<close>

text \<open>The result is the configuration and the text that was written to its file.\<close>

definition Config_new :: "config_env \<Rightarrow> string \<Rightarrow> abort + (Config \<times> string)" where
  "Config_new env overridedPath =
     (let path = (if overridedPath \<noteq> [] then overridedPath else ''/etc/ntmd.conf'');
          c = Config_init\<lparr>mFilePath := path\<rparr>
      in if \<not> env_regular_file env path then writeConfig env c
         else case env_config_file env path of
           None \<Rightarrow> Inl (Exited 1)
         | Some content \<Rightarrow> (case config_items content of
             Inl a \<Rightarrow> Inl a
           | Inr items \<Rightarrow> writeConfig env (read_items items c)))"

definition mergeArgs :: "ArgumentParser \<Rightarrow> Config \<Rightarrow> Config" where
  "mergeArgs args c = c\<lparr>
     cfg_interval := (case arg_interval args of Some v \<Rightarrow> v | None \<Rightarrow> cfg_interval c),
     cfg_interface := (case arg_interface args of Some v \<Rightarrow> v | None \<Rightarrow> cfg_interface c),
     cfg_dbPath := (case arg_dbPath args of Some v \<Rightarrow> v | None \<Rightarrow> cfg_dbPath c),
     cfg_serverPort := (case arg_serverPort args of Some v \<Rightarrow> v | None \<Rightarrow> cfg_serverPort c)\<rparr>"

section \<open>Values\<close>

text \<open>
  The contract of a configured value: it is written on one line, and reading what was written gives it
  back; and what is read from a trimmed text is again a value that can be written.
\<close>

locale value_codec =
  fixes encode :: "'v \<Rightarrow> string" and decode :: "'v \<Rightarrow> string option \<Rightarrow> 'v" and writable :: "'v \<Rightarrow> bool"
  assumes one_line: "writable v \<Longrightarrow> CHR 0x0A \<notin> set (encode v)"
    and is_trimmed: "writable v \<Longrightarrow> trimmed (encode v)"
    and decode_encode: "writable v \<Longrightarrow> decode d (Some (encode v)) = v"
    and decode_writable: "writable d \<Longrightarrow> (\<And>t. x = Some t \<Longrightarrow> trimmed t \<and> CHR 0x0A \<notin> set t) \<Longrightarrow> writable (decode d x)"
begin

lemma decode_written: "writable v \<Longrightarrow> decode d (Some (stripped (encode v))) = v"
  using stripped_trimmed [OF is_trimmed] decode_encode by simp

text \<open>Reading, writing and reading again.\<close>

lemma decode_stable:
  assumes "writable d" "\<And>t. x = Some t \<Longrightarrow> trimmed t \<and> CHR 0x0A \<notin> set t"
  shows "decode d' (Some (stripped (encode (decode d x)))) = decode d x"
  by (rule decode_written, rule decode_writable [OF assms])

end

lemma to_string_chars: "\<forall>c\<in>set (to_string i). isdigit c \<or> c = CHR ''-''" "to_string i \<noteq> []"
  using set_show_nat [of "nat (- i)"] set_show_nat [of "nat i"] show_nat_nonempty [of "nat i"]
  by (simp_all add: to_string_def)

lemma trimmed_no_space: "\<forall>c\<in>set t. \<not> isspace c \<Longrightarrow> trimmed t"
  using hd_in_set last_in_set unfolding trimmed_def by blast

lemma isdigit_no_space: "isdigit c \<or> c = CHR ''-'' \<Longrightarrow> \<not> isspace c \<and> c \<noteq> CHR 0x0A"
  by (auto simp: isdigit_def isspace_def)

lemma to_string_line: "trimmed (to_string i)" "CHR 0x0A \<notin> set (to_string i)"
  using to_string_chars(1) [of i] isdigit_no_space by (blast intro: trimmed_no_space)+

lemma lower_case: "map tolower ''true'' = ''true''" "map tolower ''false'' = ''false''"
  by (simp_all add: tolower_def isupper_def)

lemma bool_line: "trimmed (show_bool b)" "CHR 0x0A \<notin> set (show_bool b)" "stringToBool (strToLower (show_bool b)) = Inr b"
  using lower_case
  by (simp_all add: show_bool_def trimmed_def isspace_def strToLower_def stringToBool_def del: list.map)

definition text_ok :: "string \<Rightarrow> bool" where
  "text_ok t \<longleftrightarrow> trimmed t \<and> CHR 0x0A \<notin> set t"

interpretation ints: value_codec "\<lambda>n. to_string (sint n)" item_int "\<lambda>_. True"
  by unfold_locales (simp_all add: to_string_line item_int_def)

interpretation ports: value_codec "\<lambda>p. to_string (uint p)" item_port "\<lambda>_. True"
  by unfold_locales (simp_all add: to_string_line item_port_def stoi_port)

interpretation bools: value_codec show_bool item_bool "\<lambda>_. True"
  by unfold_locales (simp_all add: bool_line item_bool_def)

interpretation texts: value_codec "\<lambda>t. t" item_text text_ok
  by unfold_locales (auto simp: text_ok_def item_text_def split: option.splits)

section \<open>The file\<close>

fun apply_entry :: "config_entry \<Rightarrow> items \<Rightarrow> items" where
  "apply_entry (Item k v) m = m(k \<mapsto> stripped v)"
| "apply_entry _ m = m"

definition key_ok :: "string \<Rightarrow> bool" where
  "key_ok k \<longleftrightarrow> k \<noteq> [] \<and> trimmed k \<and> hd k \<noteq> CHR ''#'' \<and> hd k \<noteq> CHR ''['' \<and> CHR ''='' \<notin> set k"

definition entry_ok :: "config_entry \<Rightarrow> bool" where
  "entry_ok e \<longleftrightarrow> CHR 0x0A \<notin> set (show_entry e) \<and> (case e of Item k v \<Rightarrow> key_ok k | _ \<Rightarrow> True)"

lemma config_line_item:
  assumes "key_ok k"
  shows "config_line (k @ '' = '' @ v) m = Inr (m(k \<mapsto> stripped v))"
proof -
  have parts: "takeWhile (\<lambda>c. c \<noteq> CHR ''='') (k @ '' = '' @ v) = k @ '' ''"
    "dropWhile (\<lambda>c. c \<noteq> CHR ''='') (k @ '' = '' @ v) = CHR ''='' # CHR '' '' # v"
    using assms by (auto simp: key_ok_def takeWhile_append dropWhile_append)
  have "stripped (k @ '' '') = k" "stripped (CHR '' '' # v) = stripped v"
    using assms stripped_snoc_space [of "CHR '' ''" k] stripped_Cons_space [of "CHR '' ''" v]
    by (simp_all add: key_ok_def stripped_trimmed isspace_def)
  with assms show ?thesis
    unfolding config_line_def parts by (auto simp: key_ok_def trim_correct)
qed

lemma config_line_entry: "entry_ok e \<Longrightarrow> config_line (show_entry e) m = Inr (apply_entry e m)"
  using config_line_item by (cases e) (auto simp: entry_ok_def config_line_def)

lemma config_items_entries:
  assumes "\<forall>e\<in>set es. entry_ok e"
  shows "config_items (unlines (map show_entry es)) = Inr (fold apply_entry es Map.empty)"
proof -
  have "lines_of (unlines (map show_entry es)) = map show_entry es"
    using assms by (intro lines_of_unlines) (auto simp: entry_ok_def)
  moreover have "config_lines (map show_entry es) m = Inr (fold apply_entry es m)" for m
    using assms by (induction es arbitrary: m) (simp_all add: config_line_entry)
  ultimately show ?thesis by (simp add: config_items_def)
qed

text \<open>The item of a line, and the value a file gives to a key: that of the last line with the key.\<close>

definition line_item :: "string \<Rightarrow> (string \<times> string) list" where
  "line_item line =
     (if line = [] \<or> hd line \<in> {CHR ''#'', CHR ''[''} \<or> CHR ''='' \<notin> set line then []
      else [(stripped (takeWhile (\<lambda>c. c \<noteq> CHR ''='') line), stripped (tl (dropWhile (\<lambda>c. c \<noteq> CHR ''='') line)))])"

definition file_value :: "string \<Rightarrow> string \<Rightarrow> string option" where
  "file_value content key = map_of (rev (concat (map line_item (lines_of content)))) key"

text \<open>A line with nothing on one side of its equals sign, on which \<open>trim\<close> is undefined.\<close>

definition half_line :: "string \<Rightarrow> bool" where
  "half_line line \<longleftrightarrow> line \<noteq> [] \<and> hd line \<notin> {CHR ''#'', CHR ''[''} \<and> CHR ''='' \<in> set line \<and>
     (hd line = CHR ''='' \<or> tl (dropWhile (\<lambda>c. c \<noteq> CHR ''='') line) = [])"

lemma config_line_half: "half_line line \<Longrightarrow> config_line line m = Inl Undefined"
  by (cases line) (auto simp: half_line_def config_line_def trim_correct split: if_splits)

lemma config_line_whole: "\<not> half_line line \<Longrightarrow> config_line line m = Inr (m ++ map_of (rev (line_item line)))"
  by (cases line) (auto simp: half_line_def config_line_def line_item_def trim_correct)

lemma config_items_file_value:
  "config_items content =
     (if \<exists>l\<in>set (lines_of content). half_line l then Inl Undefined else Inr (file_value content))"
proof -
  have "config_lines ls m =
      (if \<exists>l\<in>set ls. half_line l then Inl Undefined else Inr (m ++ map_of (rev (concat (map line_item ls)))))" for ls m
  proof (induction ls arbitrary: m)
    case (Cons l ls)
    then show ?case by (cases "half_line l") (simp_all add: config_line_half config_line_whole)
  qed simp
  then show ?thesis by (simp add: config_items_def file_value_def fun_eq_iff)
qed

section \<open>Reading what was written\<close>

definition config_ok :: "Config \<Rightarrow> bool" where
  "config_ok c \<longleftrightarrow> text_ok (cfg_interface c) \<and> text_ok (cfg_dbPath c)"

lemma keys_ok: "key_ok ''interval''" "key_ok ''processCacheSize''" "key_ok ''interface''" "key_ok ''promiscuous''"
  "key_ok ''immediate''" "key_ok ''dbPath''" "key_ok ''port''"
  by (simp_all add: key_ok_def trimmed_def isspace_def)

lemma config_entries_ok:
  assumes "config_ok c"
  shows "\<forall>e\<in>set (config_entries c). entry_ok e"
  using assms
  by (simp add: config_entries_def entry_ok_def keys_ok to_string_line bool_line config_ok_def text_ok_def)

lemma config_text_items:
  assumes "config_ok c"
  obtains m where "config_items (config_text c) = Inr m"
    and "m ''interval'' = Some (stripped (to_string (sint (cfg_interval c))))"
    and "m ''interface'' = Some (stripped (cfg_interface c))"
    and "m ''promiscuous'' = Some (stripped (show_bool (cfg_promiscuous c)))"
    and "m ''immediate'' = Some (stripped (show_bool (cfg_immediate c)))"
    and "m ''dbPath'' = Some (stripped (cfg_dbPath c))"
    and "m ''port'' = Some (stripped (to_string (uint (cfg_serverPort c))))"
    and "m ''processCacheSize'' = Some (stripped (to_string (sint (cfg_processCacheSize c))))"
proof -
  have "config_items (config_text c) = Inr (fold apply_entry (config_entries c) Map.empty)"
    unfolding config_text_def by (rule config_items_entries [OF config_entries_ok [OF assms]])
  from that [OF this] show thesis by (simp add: config_entries_def)
qed

lemma read_written:
  assumes "config_ok c"
  obtains m where "config_items (config_text c) = Inr m" "\<And>d. read_items m d = c\<lparr>mFilePath := mFilePath d\<rparr>"
proof (rule config_text_items [OF assms])
  have texts_ok: "text_ok (cfg_interface c)" "text_ok (cfg_dbPath c)" using assms by (simp_all add: config_ok_def)
  fix m
  assume m: "config_items (config_text c) = Inr m"
    and vals: "m ''interval'' = Some (stripped (to_string (sint (cfg_interval c))))"
      "m ''interface'' = Some (stripped (cfg_interface c))"
      "m ''promiscuous'' = Some (stripped (show_bool (cfg_promiscuous c)))"
      "m ''immediate'' = Some (stripped (show_bool (cfg_immediate c)))"
      "m ''dbPath'' = Some (stripped (cfg_dbPath c))"
      "m ''port'' = Some (stripped (to_string (uint (cfg_serverPort c))))"
      "m ''processCacheSize'' = Some (stripped (to_string (sint (cfg_processCacheSize c))))"
  show thesis
    by (rule that [OF m])
      (simp add: read_items_def vals texts_ok ints.decode_written ports.decode_written bools.decode_written texts.decode_written)
qed

text \<open>What the parser reads is trimmed and has no newline, whatever the file contains.\<close>

lemma getlines_newline: "CHR 0x0A \<notin> set cur \<Longrightarrow> l \<in> set (getlines cur s) \<Longrightarrow> CHR 0x0A \<notin> set l"
  by (induction cur s rule: getlines.induct) (auto split: if_splits)

lemma set_stripped: "set (stripped t) \<subseteq> set t"
  unfolding stripped_def strip_back_def by (auto dest!: set_dropWhileD)

lemma config_line_value:
  assumes "config_line l m = Inr m'" "CHR 0x0A \<notin> set l" "\<And>k t. m k = Some t \<Longrightarrow> text_ok t" "m' k = Some t"
  shows "text_ok t"
proof -
  let ?v = "tl (dropWhile (\<lambda>c. c \<noteq> CHR ''='') l)"
  have "set ?v \<subseteq> set l" by (metis list.set_sel(2) set_dropWhileD subsetI tl_Nil)
  with set_stripped [of ?v] assms(2) have "text_ok (stripped ?v)" by (auto simp: text_ok_def trimmed_stripped)
  with assms(1,3,4) show ?thesis by (auto simp: config_line_def trim_correct split: if_splits)
qed

lemma config_items_value:
  assumes "config_items content = Inr m" "m k = Some t"
  shows "text_ok t"
proof -
  have "\<forall>l\<in>set ls. CHR 0x0A \<notin> set l \<Longrightarrow> (\<And>k t. m0 k = Some t \<Longrightarrow> text_ok t) \<Longrightarrow>
      config_lines ls m0 = Inr m \<Longrightarrow> text_ok t" for ls m0
  proof (induction ls arbitrary: m0)
    case (Cons l ls)
    then obtain m1 where m1: "config_line l m0 = Inr m1" "config_lines ls m1 = Inr m" by (auto split: sum.splits)
    with config_line_value [OF m1(1)] Cons.prems(1,2) have "\<And>k t. m1 k = Some t \<Longrightarrow> text_ok t" by auto
    then show ?case using Cons.IH [of m1] Cons.prems(1) m1(2) by simp
  qed (use assms(2) in simp)
  from this [of "lines_of content" Map.empty] getlines_newline [of "[]" _ content] assms(1)
  show ?thesis by (simp add: config_items_def lines_of_def)
qed

lemma config_ok_read:
  assumes "config_ok c" "config_items content = Inr m"
  shows "config_ok (read_items m c)"
proof -
  have "text_ok (item_text d (m k))" if "text_ok d" for d k
    using texts.decode_writable [OF that] config_items_value [OF assms(2), of k] by (simp add: text_ok_def)
  with assms(1) show ?thesis by (simp add: config_ok_def read_items_def)
qed

lemma Config_new_cases:
  assumes "Config_new env p = Inr (c, text)"
  shows "config_ok c" "text = config_text c" "mFilePath c = (if p \<noteq> [] then p else ''/etc/ntmd.conf'')"
proof -
  let ?c = "Config_init\<lparr>mFilePath := if p \<noteq> [] then p else ''/etc/ntmd.conf''\<rparr>"
  have "config_ok ?c" by (simp add: config_ok_def Config_init_def text_ok_def trimmed_def)
  then show "config_ok c" "text = config_text c" "mFilePath c = (if p \<noteq> [] then p else ''/etc/ntmd.conf'')"
    using assms config_ok_read [of ?c]
    by (auto simp: Config_new_def writeConfig_def Let_def read_items_def split: if_splits option.splits sum.splits)
qed

lemma Config_new_written:
  assumes "config_ok c" "mFilePath c = (if p \<noteq> [] then p else ''/etc/ntmd.conf'')"
    and "env_regular_file env (mFilePath c)" "env_config_file env (mFilePath c) = Some (config_text c)"
    and "env_writable env (mFilePath c)"
  shows "Config_new env p = Inr (c, config_text c)"
proof -
  obtain m where "config_items (config_text c) = Inr m" "\<And>d. read_items m d = c\<lparr>mFilePath := mFilePath d\<rparr>"
    using read_written [OF assms(1)] by blast
  then have "read_items m (Config_init\<lparr>mFilePath := mFilePath c\<rparr>) = c" by simp
  with \<open>config_items (config_text c) = Inr m\<close> assms(2-5) show ?thesis
    by (simp add: Config_new_def writeConfig_def Let_def)
qed

text \<open>
  C21. Reading inverts writing: a configuration whose texts have no newline and no surrounding white
  space, written to its file, is read back from it with every value, and the file stays as it is.
\<close>

theorem config_roundtrip:
  assumes "text_ok (cfg_interface c)" "text_ok (cfg_dbPath c)" "mFilePath c \<noteq> []"
    and "env_regular_file env (mFilePath c)" "env_config_file env (mFilePath c) = Some (config_text c)"
    and "env_writable env (mFilePath c)"
  shows "Config_new env (mFilePath c) = Inr (c, config_text c)"
  using assms by (intro Config_new_written) (simp_all add: config_ok_def)

definition sample_config :: Config where
  "sample_config = \<lparr>cfg_interval = 30, cfg_interface = ''eth0'', cfg_promiscuous = True, cfg_immediate = False,
     cfg_dbPath = ''/tmp/a.db'', cfg_processCacheSize = 0, cfg_serverPort = 80, mFilePath = ''/etc/ntmd.conf''\<rparr>"

definition file_env :: "string \<Rightarrow> config_env" where
  "file_env content = \<lparr>env_regular_file = \<lambda>_. True, env_config_file = \<lambda>_. Some content, env_writable = \<lambda>_. True\<rparr>"

theorem config_roundtrip_witness:
  "Config_new (file_env (config_text sample_config)) ''/etc/ntmd.conf'' = Inr (sample_config, config_text sample_config)"
proof -
  have "text_ok (cfg_interface sample_config)" "text_ok (cfg_dbPath sample_config)"
    by (simp_all add: sample_config_def text_ok_def trimmed_def isspace_def)
  from config_roundtrip [OF this, of "file_env (config_text sample_config)"]
  show ?thesis by (simp add: file_env_def) (simp add: sample_config_def)
qed

text \<open>
  Starting twice changes nothing: whatever the file contained at the first start, reading the file
  that was written then gives the same configuration and writes the same text.
\<close>

theorem config_rewrite_stable:
  assumes "Config_new env p = Inr (c, text)"
    and "env_regular_file env' (mFilePath c)" "env_config_file env' (mFilePath c) = Some text"
    and "env_writable env' (mFilePath c)"
  shows "Config_new env' p = Inr (c, text)"
  using Config_new_cases [OF assms(1)] Config_new_written [of c p env'] assms(2-4) by simp

theorem config_rewrite_stable_witness:
  "\<exists>c out. Config_new (file_env ''port = x'') ''a.conf'' = Inr (c, out) \<and>
     Config_new (file_env out) ''a.conf'' = Inr (c, out)"
proof -
  obtain c out where c: "Config_new (file_env ''port = x'') ''a.conf'' = Inr (c, out)"
    by (simp add: Config_new_def file_env_def writeConfig_def Let_def config_items_file_value lines_of_def half_line_def)
  with config_rewrite_stable [OF c, of "file_env out"] show ?thesis by (auto simp: file_env_def)
qed

section \<open>Which value a setting has\<close>

text \<open>
  C22. Where a setting comes from: the command line if it names it, else the last line of the file with
  that key if its value can be converted, else the default. A port is taken modulo \<open>2 ^ 16\<close>
  from the command line and from the file alike. (A file with an equals sign that begins or ends its line is
  not read: it gives \<open>trim\<close> an empty string.)
\<close>

theorem settings_precedence:
  assumes "env_regular_file env p" "env_config_file env p = Some content" "p \<noteq> []"
    and "Config_new env p = Inr (c, written)" "c' = mergeArgs args c"
  shows "cfg_interval c' = (case (arg_interval args, map_option stoi (file_value content ''interval'')) of
        (Some n, _) \<Rightarrow> n | (None, Some (Inr n)) \<Rightarrow> n | _ \<Rightarrow> 10) \<and>
    cfg_interface c' = (case (arg_interface args, file_value content ''interface'') of
        (Some v, _) \<Rightarrow> v | (None, Some v) \<Rightarrow> v | _ \<Rightarrow> []) \<and>
    cfg_dbPath c' = (case (arg_dbPath args, file_value content ''dbPath'') of
        (Some v, _) \<Rightarrow> v | (None, Some v) \<Rightarrow> v | _ \<Rightarrow> []) \<and>
    cfg_serverPort c' = (case (arg_serverPort args, map_option stoi (file_value content ''port'')) of
        (Some n, _) \<Rightarrow> n | (None, Some (Inr n)) \<Rightarrow> ucast n | _ \<Rightarrow> 13889) \<and>
    cfg_processCacheSize c' = (case map_option stoi (file_value content ''processCacheSize'') of
        Some (Inr n) \<Rightarrow> n | _ \<Rightarrow> 5) \<and>
    cfg_promiscuous c' = (case map_option (stringToBool \<circ> strToLower) (file_value content ''promiscuous'') of
        Some (Inr b) \<Rightarrow> b | _ \<Rightarrow> False) \<and>
    cfg_immediate c' = (case map_option (stringToBool \<circ> strToLower) (file_value content ''immediate'') of
        Some (Inr b) \<Rightarrow> b | _ \<Rightarrow> False)"
proof -
  have "c = read_items (file_value content) (Config_init\<lparr>mFilePath := p\<rparr>)"
    using assms(1-4)
    by (simp add: Config_new_def writeConfig_def Let_def config_items_file_value split: if_splits)
  then show ?thesis
    unfolding assms(5) mergeArgs_def read_items_def Config_init_def
    by (simp add: item_int_def item_port_def item_text_def item_bool_def split: option.split sum.split)
qed

theorem settings_precedence_witness:
  "\<exists>c written. Config_new (file_env (unlines [''# comment'', ''port = 7'', ''interval = 3'', ''port = 65545''])) ''a'' =
       Inr (c, written) \<and>
     cfg_serverPort (mergeArgs ArgumentParser_init c) = 9 \<and>
     cfg_interval (mergeArgs (ArgumentParser_init\<lparr>arg_interval := Some 4\<rparr>) c) = 4"
proof -
  let ?content = "unlines [''# comment'', ''port = 7'', ''interval = 3'', ''port = 65545'']"
  let ?env = "file_env ?content"
  have env: "env_regular_file ?env ''a''" "env_config_file ?env ''a'' = Some ?content" "''a'' \<noteq> []"
    by (simp_all add: file_env_def)
  have lines: "lines_of ?content = [''# comment'', ''port = 7'', ''interval = 3'', ''port = 65545'']"
    by (rule lines_of_unlines) simp
  obtain c written where c: "Config_new ?env ''a'' = Inr (c, written)"
    by (simp add: Config_new_def file_env_def writeConfig_def Let_def config_items_file_value lines half_line_def del: unlines_simps)
  have trims: "stripped ''port '' = ''port''" "stripped ''interval '' = ''interval''" "stripped '' 65545'' = ''65545''"
    by (simp_all add: stripped_def strip_back_def isspace_def)
  have "file_value ?content ''port'' = Some ''65545''"
    unfolding file_value_def lines by (simp add: line_item_def trims)
  moreover have "stoi ''65545'' = Inr 65545"
    by (simp add: stoi_def sign_split_def isspace_def isdigit_def decimal_value_def digit_value_def Let_def)
  ultimately show ?thesis
    using c settings_precedence [OF env c refl, of ArgumentParser_init]
      settings_precedence [OF env c refl, of "ArgumentParser_init\<lparr>arg_interval := Some 4\<rparr>"]
    by (simp add: ArgumentParser_init_def)
qed

end
