(* ===== verification/Daemon.thy ===== *)
theory Daemon
  imports Sniffer Config
begin

text \<open>
  \<open>src/src/Daemon.cpp\<close> and \<open>src/src/main.cpp\<close>: the signal flags, the start of the program and its
  loop. Signals arrive at any time; a turn of the loop is given with the signals that arrived since the
  last test and with the frames the capture delivers.
\<close>

section \<open>The signal flags\<close>

record daemon_state =
  mIsRunning :: bool
  mReload :: bool

definition Daemon_init :: daemon_state where
  "Daemon_init = \<lparr>mIsRunning = True, mReload = False\<rparr>"

datatype signal = SIGINT | SIGTERM | SIGHUP

fun signalHandler :: "signal \<Rightarrow> daemon_state \<Rightarrow> daemon_state" where
  "signalHandler SIGINT d = d\<lparr>mIsRunning := False\<rparr>"
| "signalHandler SIGTERM d = d\<lparr>mIsRunning := False\<rparr>"
| "signalHandler SIGHUP d = d\<lparr>mReload := True\<rparr>"

text \<open>The constructor registers the handler for the three signals; an unhandled signal ends the process.\<close>

definition Daemon_new :: "(signal \<Rightarrow> bool) \<Rightarrow> (signal \<Rightarrow> bool) \<times> daemon_state" where
  "Daemon_new handled = (handled(SIGINT := True, SIGTERM := True, SIGHUP := True), Daemon_init)"

text \<open>\<open>reload\<close> only logs that it is not implemented.\<close>

definition reload :: "daemon_state \<Rightarrow> daemon_state" where
  "reload d = d"

definition running :: "daemon_state \<Rightarrow> bool \<times> daemon_state" where
  "running d = (let d = (if mReload d then reload (d\<lparr>mReload := False\<rparr>) else d) in (mIsRunning d, d))"

section \<open>The program\<close>

text \<open>The outside of the program at its start.\<close>

record start_env =
  start_euid :: nat
  start_argv :: "string list"
  start_files :: config_env
  start_db_opens :: "string \<Rightarrow> bool"
  start_pcap :: pcap_env
  start_proc :: proc_env

text \<open>\<open>DBController::DBController\<close>: the path, when the database could be opened there.\<close>

definition DBController_new :: "(string \<Rightarrow> bool) \<Rightarrow> string \<Rightarrow> abort + string" where
  "DBController_new opens dbPath =
     (let path = (if dbPath = [] then ''/var/lib/ntmd.db'' else dbPath)
      in if opens path then Inr path else Inl (Exited 1))"

record program =
  prog_config :: Config
  prog_db :: string
  prog_storage :: TrafficStorage
  prog_sniffer :: Sniffer

text \<open>
  \<open>main\<close> up to its loop, in the order of its declarations. The API server is started after the
  storage, and runs without the API when its socket cannot be opened; it never ends the program here.
\<close>

definition main_start :: "start_env \<Rightarrow> abort + program" where
  "main_start env =
     (if start_euid env \<noteq> 0 then Inl (Exited 4)
      else case ArgumentParser_new (env_regular_file (start_files env)) (start_argv env) of
        Inl a \<Rightarrow> Inl a
      | Inr args \<Rightarrow>
          (case Config_new (start_files env) (arg_configPath args) of
             Inl a \<Rightarrow> Inl a
           | Inr (cfg, written) \<Rightarrow>
               (let cfg = mergeArgs args cfg
                in case DBController_new (start_db_opens env) (cfg_dbPath cfg) of
                     Inl a \<Rightarrow> Inl a
                   | Inr db \<Rightarrow>
                       (let ts = TrafficStorage_new (cfg_interval cfg)
                        in case Sniffer_new (start_pcap env) (start_proc env) (cfg_interface cfg)
                                  (cfg_promiscuous cfg) (cfg_immediate cfg) (cfg_processCacheSize cfg) of
                             Inl a \<Rightarrow> Inl a
                           | Inr s \<Rightarrow> Inr \<lparr>prog_config = cfg, prog_db = db, prog_storage = ts, prog_sniffer = s\<rparr>))))"

text \<open>
  The loop, on its turns so far: \<open>True\<close> when it was left. What other threads do to the storage in
  between is not part of it.
\<close>

type_synonym turn = "signal list \<times> (proc_env \<times> pcap_pkthdr \<times> frame) list"

fun main_loop :: "turn list \<Rightarrow> daemon_state \<Rightarrow> Sniffer \<times> TrafficStorage \<Rightarrow> abort + (bool \<times> daemon_state \<times> Sniffer \<times> TrafficStorage)" where
  "main_loop [] d st = Inr (False, d, st)"
| "main_loop ((signals, batch) # turns) d st =
     (let (continue, d) = running (fold signalHandler signals d)
      in if \<not> continue then Inr (True, d, st)
         else case dispatch batch st of
           Inl a \<Rightarrow> Inl a
         | Inr st \<Rightarrow> main_loop turns d st)"

section \<open>Stopping\<close>

definition stops_program :: "signal list \<Rightarrow> bool" where
  "stops_program signals \<longleftrightarrow> SIGINT \<in> set signals \<or> SIGTERM \<in> set signals"

lemma fold_signals: "mIsRunning (fold signalHandler signals d) \<longleftrightarrow> mIsRunning d \<and> \<not> stops_program signals"
proof (induction signals arbitrary: d)
  case (Cons s signals)
  then show ?case by (cases s) (auto simp: stops_program_def)
qed (simp add: stops_program_def)

lemma running_simps [simp]: "fst (running d) = mIsRunning d" "mIsRunning (snd (running d)) = mIsRunning d" "\<not> mReload (snd (running d))"
  by (simp_all add: running_def reload_def Let_def)

lemma dispatch_append:
  "dispatch (xs @ ys) st = (case dispatch xs st of Inl a \<Rightarrow> Inl a | Inr st' \<Rightarrow> dispatch ys st')"
  by (induction xs st rule: dispatch.induct) (simp_all split: sum.split)

text \<open>
  C36. The loop ends exactly with the first turn that finds a termination signal, having handled every
  frame of the turns before and none of later ones, unless one of those frames ends the program; a hangup
  signal changes nothing.
\<close>

theorem main_loop_stops:
  assumes "mIsRunning d" "handled = takeWhile (\<lambda>t. \<not> stops_program (fst t)) turns"
  shows "\<exists>d'. mIsRunning d' = (handled = turns) \<and>
    main_loop turns d st = (case dispatch (concat (map snd handled)) st of
      Inl a \<Rightarrow> Inl a
    | Inr st' \<Rightarrow> Inr (handled \<noteq> turns, d', st'))"
  using assms
proof (induction turns arbitrary: d st handled)
  case (Cons t turns)
  obtain signals batch where t: "t = (signals, batch)" by fastforce
  obtain d1 where r: "running (fold signalHandler signals d) = (\<not> stops_program signals, d1)"
      "mIsRunning d1 = (\<not> stops_program signals)"
    using Cons.prems(1) fold_signals [of signals d] running_simps(1,2) [of "fold signalHandler signals d"]
    by (cases "running (fold signalHandler signals d)") simp
  show ?case
  proof (cases "stops_program signals")
    case True
    with Cons.prems(2) r t show ?thesis by auto
  next
    case False
    let ?rest = "takeWhile (\<lambda>t. \<not> stops_program (fst t)) turns"
    have handled: "handled = t # ?rest" "handled \<noteq> t # turns \<longleftrightarrow> ?rest \<noteq> turns" "handled = t # turns \<longleftrightarrow> ?rest = turns"
      using Cons.prems(2) False t by simp_all
    show ?thesis
    proof (cases "dispatch batch st")
      case (Inl a)
      with Cons.IH [of d1 ?rest st] False r t handled show ?thesis by (auto simp: dispatch_append)
    next
      case (Inr st1)
      obtain d' where "mIsRunning d' = (?rest = turns)"
        "main_loop turns d1 st1 = (case dispatch (concat (map snd ?rest)) st1 of
          Inl a \<Rightarrow> Inl a | Inr st' \<Rightarrow> Inr (?rest \<noteq> turns, d', st'))"
        using Cons.IH [of d1 ?rest st1] False r(2) by blast
      moreover have "main_loop (t # turns) d st = main_loop turns d1 st1"
        using False r Inr t by simp
      moreover have "dispatch (concat (map snd handled)) st = dispatch (concat (map snd ?rest)) st1"
        using Inr t by (simp add: handled(1) dispatch_append)
      ultimately show ?thesis unfolding handled(2,3) by metis
    qed
  qed
qed (simp add: exI [of _ d])

text \<open>Two idle turns, a hangup, then a termination: the turn after that is not handled.\<close>

theorem main_loop_stops_witness:
  "\<exists>d'. \<not> mIsRunning d' \<and>
    main_loop [([], []), ([SIGHUP], []), ([SIGTERM], []), ([], [])] Daemon_init
      (sample_sniffer, TrafficStorage_new 10) = Inr (True, d', sample_sniffer, TrafficStorage_new 10)"
  using main_loop_stops [OF _ refl, of Daemon_init "[([], []), ([SIGHUP], []), ([SIGTERM], []), ([], [])]"
      "(sample_sniffer, TrafficStorage_new 10)"]
  by (simp add: stops_program_def Daemon_init_def)

end
