(* ===== verification/Filesystem_Util.thy ===== *)
theory Filesystem_Util
  imports Main
begin

text \<open>
  \<open>src/src/util/FilesystemUtil.cpp\<close>: the home directory, from the environment variables of the process
  (\<open>std::getenv\<close>, an argument). An empty path says that there is none.
\<close>

definition getHomeDirectory :: "(string \<rightharpoonup> string) \<Rightarrow> string" where
  "getHomeDirectory getenv =
     (case getenv ''XDG_CONFIG_HOME'' of
        Some xdg \<Rightarrow> xdg
      | None \<Rightarrow> (case getenv ''HOME'' of Some home \<Rightarrow> home | None \<Rightarrow> []))"

text \<open>An empty \<open>XDG_CONFIG_HOME\<close> hides \<open>HOME\<close>.\<close>

lemma getHomeDirectory_empty_iff:
  "getHomeDirectory getenv = [] \<longleftrightarrow>
   getenv ''XDG_CONFIG_HOME'' = Some [] \<or> getenv ''XDG_CONFIG_HOME'' = None \<and> getenv ''HOME'' \<in> {None, Some []}"
  by (auto simp: getHomeDirectory_def split: option.split)

end
