(* ===== verification/Program.thy ===== *)
theory Program
  imports LRU_Array API_Server DB_Controller Daemon Filesystem_Util
begin

text \<open>
  The components put together: the objects \<open>main\<close> creates and their threads, as actions on one state:
  the sniffer's callback in its two parts, a turn of the deposit loop, and the indexes' clearing threads.
  Requests of the API read the state. An action is what a thread does up to the next point where it
  waits for, or gives up, a lock of the storage.
\<close>

section \<open>The parts together\<close>

text \<open>
  What the members \<open>mTrafficStorage\<close> and \<open>mDB\<close> of the API controller give its handlers, and a turn of
  the deposit loop with the database controller.
\<close>

definition api_of ::
  "(TrafficMap \<Rightarrow> (string \<times> TrafficLine) list) \<Rightarrow> 'db sqlite \<Rightarrow> i64 \<Rightarrow> TrafficStorage \<Rightarrow> 'db \<Rightarrow> api_env" where
  "api_of iterate sq day s db =
     \<lparr>api_snapshot = (iterate (fst (getLiveSnapshot s)), snd (getLiveSnapshot s)), api_day_start = day,
      api_since = (\<lambda>t. iterate (fetchTrafficSince sq t db)),
      api_between = (\<lambda>t u. iterate (fetchTrafficBetween sq t u db))\<rparr>"

definition deposit_in_db ::
  "(TrafficMap \<Rightarrow> (string \<times> TrafficLine) list) \<Rightarrow> 'db sqlite \<Rightarrow> i64 \<Rightarrow> TrafficStorage \<Rightarrow> api_memory \<Rightarrow> 'db \<Rightarrow>
     abort + (TrafficStorage \<times> api_memory \<times> 'db)" where
  "deposit_in_db iterate sq now = deposit (\<lambda>m. insertApplicationTraffic sq now (iterate m))"

text \<open>The lines of a traffic map that the database gives back.\<close>

definition reported :: "TrafficMap \<Rightarrow> TrafficMap" where
  "reported m = (\<lambda>name. case m name of
     None \<Rightarrow> None
   | Some line \<Rightarrow> if CHR '';'' \<in> set name \<or> TrafficLine_empty line then None else Some line)"

lemma deposit_InrD:
  assumes "deposit insertDB s mem db = Inr (s', mem', db')"
  shows "db' = insertDB (mApplicationTraffic s) db"
  using assms by (auto simp: deposit_def Let_def split: sum.splits)

lemma reported_dom: "finite (dom m) \<Longrightarrow> finite (dom (reported m))"
  by (erule rev_finite_subset) (auto simp: reported_def split: option.splits)

lemma iterate_length:
  assumes "iterates iterate" "finite (dom m)"
  shows "length (iterate m) = card (dom m)"
proof -
  have it: "distinct (map fst (iterate m))" "map_of (iterate m) = m"
    using assms by (simp_all add: iterates_def)
  then have "dom m = set (map fst (iterate m))" using dom_map_of_conv_image_fst [of "iterate m"] by simp
  then show ?thesis using distinct_card [OF it(1)] by simp
qed

text \<open>An order of iteration, for the example.\<close>

definition sorted_iterate :: "TrafficMap \<Rightarrow> (string \<times> TrafficLine) list" where
  "sorted_iterate m = map (\<lambda>name. (name, the (m name))) (sorted_list_of_set (dom m))"

lemma sorted_iterates: "iterates sorted_iterate"
proof -
  have "distinct (map fst (sorted_iterate m)) \<and> map_of (sorted_iterate m) = m" if "finite (dom m)" for m
  proof
    show "distinct (map fst (sorted_iterate m))" by (simp add: sorted_iterate_def comp_def)
    have "map_of (sorted_iterate m) name = m name" for name
      using that by (cases "m name") (auto simp: sorted_iterate_def map_of_map_restrict restrict_map_def)
    then show "map_of (sorted_iterate m) = m" ..
  qed
  then show ?thesis by (simp add: iterates_def)
qed

section \<open>The running program\<close>

text \<open>
  \<open>SnifferLoop::pktCallback\<close> up to the point where \<open>TrafficStorage::add\<close> has its reference to the line of the
  application and asks for the lock: the process and the packet that remain to be accounted, if any.
\<close>

definition pktCallback_fetch ::
  "proc_env \<Rightarrow> pcap_pkthdr \<Rightarrow> frame \<Rightarrow> Sniffer \<times> TrafficStorage \<Rightarrow>
     abort + ((Process \<times> Packet) option \<times> Sniffer \<times> TrafficStorage)" where
  "pktCallback_fetch env hdr rawPkt = (\<lambda>(s, ts).
     case Packet_new hdr rawPkt (mIPList s) of
       None \<Rightarrow> Inl Undefined
     | Some pkt \<Rightarrow>
         if discard pkt then Inr (None, s, ts)
         else (case ProcessResolver_resolve env pkt (mProcessResolver s) of
                 Inl a \<Rightarrow> Inl a
               | Inr (process, r) \<Rightarrow>
                   Inr (Some (process, pkt), s\<lparr>mProcessResolver := r\<rparr>, TrafficStorage_line process ts)))"

text \<open>The callback is this part and the accounting under the lock.\<close>

lemma pktCallback_parts:
  "pktCallback env hdr raw (s, ts) =
     (case pktCallback_fetch env hdr raw (s, ts) of
        Inl a \<Rightarrow> Inl a
      | Inr (None, s', ts') \<Rightarrow> Inr (s', ts')
      | Inr (Some (process, pkt), s', ts') \<Rightarrow>
          (case TrafficStorage_account process pkt ts' of Inl a \<Rightarrow> Inl a | Inr ts'' \<Rightarrow> Inr (s', ts'')))"
  by (simp add: pktCallback_def pktCallback_fetch_def TrafficStorage_add_def split: option.split sum.split)

lemma fetch_cases:
  assumes "pktCallback_fetch env hdr raw (s, ts) = Inr (q, s', ts')"
  obtains (discarded) p where "Packet_new hdr raw (mIPList s) = Some p" "discard p" "q = None" "s' = s" "ts' = ts"
  | (kept) p x r where "Packet_new hdr raw (mIPList s) = Some p" "\<not> discard p"
      "ProcessResolver_resolve env p (mProcessResolver s) = Inr (x, r)"
      "q = Some (x, p)" "s' = s\<lparr>mProcessResolver := r\<rparr>" "ts' = TrafficStorage_line x ts"
proof (cases "Packet_new hdr raw (mIPList s)")
  case None
  with assms show thesis by (simp add: pktCallback_fetch_def)
next
  case (Some p)
  show thesis
  proof (cases "discard p")
    case True
    with Some assms show thesis by (intro discarded [of p]) (simp_all add: pktCallback_fetch_def)
  next
    case False
    with Some assms obtain x r where "ProcessResolver_resolve env p (mProcessResolver s) = Inr (x, r)"
      by (auto simp: pktCallback_fetch_def split: sum.splits)
    with Some assms False show thesis by (intro kept [of p x r]) (simp_all add: pktCallback_fetch_def)
  qed
qed

text \<open>The packet that the sniffer's thread holds while it waits for the lock is \<open>sys_pending\<close>.\<close>

record 'db system =
  sys_sniffer :: Sniffer
  sys_storage :: TrafficStorage
  sys_memory :: api_memory
  sys_db :: 'db
  sys_pending :: "(Process \<times> Packet) option"

datatype action = Captured proc_env pcap_pkthdr frame | Accounted | Deposit_due i64 | Clear_sockets | Clear_processes

text \<open>
  The sniffer's thread takes the next frame only when it has accounted the last packet; its second part
  uses the reference, which dangles when a deposit has come in between.
\<close>

fun act ::
  "(TrafficMap \<Rightarrow> (string \<times> TrafficLine) list) \<Rightarrow> 'db sqlite \<Rightarrow> action \<Rightarrow> 'db system \<Rightarrow> abort + 'db system" where
  "act iterate sq (Captured env hdr raw) s =
     (if sys_pending s \<noteq> None then Inr s
      else case pktCallback_fetch env hdr raw (sys_sniffer s, sys_storage s) of
        Inl a \<Rightarrow> Inl a
      | Inr (q, sn, ts) \<Rightarrow> Inr (s\<lparr>sys_sniffer := sn, sys_storage := ts, sys_pending := q\<rparr>))"
| "act iterate sq Accounted s =
     (case sys_pending s of
        None \<Rightarrow> Inr s
      | Some (process, pkt) \<Rightarrow>
          (case TrafficStorage_account process pkt (sys_storage s) of
             Inl a \<Rightarrow> Inl a
           | Inr ts \<Rightarrow> Inr (s\<lparr>sys_storage := ts, sys_pending := None\<rparr>)))"
| "act iterate sq (Deposit_due now) s =
     (case deposit_in_db iterate sq now (sys_storage s) (sys_memory s) (sys_db s) of
        Inl a \<Rightarrow> Inl a
      | Inr (ts, mem, db) \<Rightarrow> Inr (s\<lparr>sys_storage := ts, sys_memory := mem, sys_db := db\<rparr>))"
| "act iterate sq Clear_sockets s = Inr (s\<lparr>sys_sniffer := (sys_sniffer s)\<lparr>mProcessResolver :=
     (mProcessResolver (sys_sniffer s))\<lparr>mSocketIndex := SocketIndex_forget (mSocketIndex (mProcessResolver (sys_sniffer s)))\<rparr>\<rparr>\<rparr>)"
| "act iterate sq Clear_processes s = Inr (s\<lparr>sys_sniffer := (sys_sniffer s)\<lparr>mProcessResolver :=
     (mProcessResolver (sys_sniffer s))\<lparr>mProcessIndex := ProcessIndex_forget (mProcessIndex (mProcessResolver (sys_sniffer s)))\<rparr>\<rparr>\<rparr>)"

text \<open>The state \<open>main\<close> has built when its loop begins, with no stream connected.\<close>

definition system_of :: "program \<Rightarrow> 'db \<Rightarrow> 'db system" where
  "system_of p db = \<lparr>sys_sniffer = prog_sniffer p, sys_storage = prog_storage p, sys_memory = Map.empty, sys_db = db, sys_pending = None\<rparr>"

lemma main_start_cases:
  assumes "main_start env = Inr p"
  obtains args cfg written where
    "start_euid env = 0" "ArgumentParser_new (env_regular_file (start_files env)) (start_argv env) = Inr args"
    "Config_new (start_files env) (arg_configPath args) = Inr (cfg, written)" "prog_config p = mergeArgs args cfg"
    "prog_storage p = TrafficStorage_new (cfg_interval (prog_config p))"
    "Sniffer_new (start_pcap env) (start_proc env) (cfg_interface (prog_config p)) (cfg_promiscuous (prog_config p))
       (cfg_immediate (prog_config p)) (cfg_processCacheSize (prog_config p)) = Inr (prog_sniffer p)"
  using assms by (auto simp: main_start_def Let_def split: if_splits sum.splits)

section \<open>What is accounted\<close>

text \<open>
  What an action adds to the traffic of an application: a captured frame the contribution of its packet,
  when it is of use and the resolver attributes it to the application.
\<close>

fun credit :: "action \<Rightarrow> 'db system \<Rightarrow> string \<Rightarrow> TrafficLine" where
  "credit (Captured env hdr raw) s name =
     (if sys_pending s \<noteq> None then 0
      else case Packet_new hdr raw (mIPList (sys_sniffer s)) of
        None \<Rightarrow> 0
      | Some p \<Rightarrow>
          if \<not> packet_ok (addresses (mIPList (sys_sniffer s))) p then 0
          else case ProcessResolver_resolve env p (mProcessResolver (sys_sniffer s)) of
            Inl _ \<Rightarrow> 0
          | Inr (q, _) \<Rightarrow> if comm q = name then contribution p else 0)"
| "credit _ s name = 0"

text \<open>What of it the sniffer's thread has still in hand.\<close>

definition in_hand :: "'db system \<Rightarrow> string \<Rightarrow> TrafficLine" where
  "in_hand s name = (case sys_pending s of None \<Rightarrow> 0 | Some (q, p) \<Rightarrow> if comm q = name then contribution p else 0)"

text \<open>
  Deposits that lose nothing: each comes at a later second than the one before, within 32 bits, and holds
  only application names of the set, with less than \<open>2 ^ 31\<close> bytes in each direction.
\<close>

definition deposit_fits :: "string set \<Rightarrow> int \<Rightarrow> i64 \<Rightarrow> TrafficMap \<Rightarrow> bool" where
  "deposit_fits names latest now m \<longleftrightarrow> latest < sint now \<and> sint now < 2 ^ 31 \<and> dom m \<subseteq> names \<and>
     (\<forall>l\<in>ran m. uint (bytesRx l) < 2 ^ 31 \<and> uint (bytesTx l) < 2 ^ 31)"

definition good_names :: "string set \<Rightarrow> bool" where
  "good_names names \<longleftrightarrow> (\<forall>n\<in>names. plain_name n) \<and> inj_on table_key names"

text \<open>
  The tables while the program runs, with the timestamps since \<open>t\<close> as those of its own deposits: each
  table is that of one of the names, and its own rows have different times up to the last deposit and
  columns of 32 bits.
\<close>

definition own_rows :: "int \<Rightarrow> (int \<times> int list) list \<Rightarrow> (int \<times> int list) list" where
  "own_rows t rs = [r \<leftarrow> rs. t \<le> fst r]"

definition table_ok :: "int \<Rightarrow> int \<Rightarrow> (int \<times> int list) list \<Rightarrow> bool" where
  "table_ok t latest rs \<longleftrightarrow> (\<forall>r\<in>set rs. fst r \<le> latest) \<and> distinct (map fst (own_rows t rs)) \<and>
     (\<forall>r\<in>set (own_rows t rs). length (snd r) = 4 \<and> (\<forall>c\<in>set (snd r). - (2 ^ 31) \<le> c \<and> c < 2 ^ 31))"

definition tables_ok :: "string set \<Rightarrow> int \<Rightarrow> int \<Rightarrow> tables \<Rightarrow> bool" where
  "tables_ok names t latest tabs \<longleftrightarrow>
     (\<forall>k m rs. tabs k = Some (m, rs) \<longrightarrow> m \<in> names \<and> table_key m = k \<and> table_ok t latest rs)"

definition kept_line :: "int \<Rightarrow> tables \<Rightarrow> string \<Rightarrow> TrafficLine" where
  "kept_line t tabs name = (case tabs (table_key name) of
     None \<Rightarrow> 0
   | Some (m, rs) \<Rightarrow> if m = name then sum_line (\<lambda>x. t \<le> x) rs else 0)"

lemma column_sum_own: "column_sum (\<lambda>x. t \<le> x) rs i = sum_list (map (\<lambda>r. snd r ! i) (own_rows t rs))"
  by (induction rs) (auto simp: column_sum_def own_rows_def)

lemma table_ok_fits:
  assumes "table_ok t latest rs" "- (2 ^ 31) \<le> t" "latest < 2 ^ 31"
  shows "sums_fit (\<lambda>x. t \<le> x) rs"
proof -
  let ?rs = "own_rows t rs"
  have "fst ` set ?rs \<subseteq> {- (2 ^ 31)..<2 ^ 31}"
    using assms by (auto simp: table_ok_def own_rows_def)
  then have "card (fst ` set ?rs) \<le> card {- (2 ^ 31)..<2 ^ 31 :: int}" by (intro card_mono) simp_all
  moreover have "card (fst ` set ?rs) = length ?rs"
    using distinct_card [of "map fst ?rs"] assms(1) by (simp add: table_ok_def)
  ultimately have len: "int (length ?rs) \<le> 2 ^ 32" by simp
  have bound: "- (2 ^ 31) * int (length xs) \<le> sum_list (map (\<lambda>r. snd r ! i) xs) \<and>
      sum_list (map (\<lambda>r. snd r ! i) xs) \<le> (2 ^ 31 - 1) * int (length xs)"
    if "\<forall>r\<in>set xs. length (snd r) = 4 \<and> (\<forall>c\<in>set (snd r). - (2 ^ 31) \<le> c \<and> c < 2 ^ 31)" "i < 4"
    for xs :: "(int \<times> int list) list" and i
    using that
  proof (induction xs)
    case (Cons r xs)
    then have "snd r ! i \<in> set (snd r)" by simp
    with Cons.prems(1) have "- (2 ^ 31) \<le> snd r ! i" "snd r ! i < 2 ^ 31" by simp_all
    moreover from Cons have "- (2 ^ 31) * int (length xs) \<le> sum_list (map (\<lambda>r. snd r ! i) xs)"
      "sum_list (map (\<lambda>r. snd r ! i) xs) \<le> (2 ^ 31 - 1) * int (length xs)" by simp_all
    ultimately show ?case by (simp add: algebra_simps)
  qed simp
  have rows: "\<forall>r\<in>set ?rs. length (snd r) = 4 \<and> (\<forall>c\<in>set (snd r). - (2 ^ 31) \<le> c \<and> c < 2 ^ 31)"
    using assms(1) by (simp add: table_ok_def)
  show ?thesis
    unfolding sums_fit_def column_sum_own
  proof
    fix i :: nat
    assume "i \<in> {0..<4}"
    with bound [OF rows, of i] len
    show "- (2 ^ 63) \<le> sum_list (map (\<lambda>r. snd r ! i) ?rs) \<and> sum_list (map (\<lambda>r. snd r ! i) ?rs) < 2 ^ 63"
      by auto
  qed
qed

section \<open>A deposit moves the lines into the tables\<close>

lemma deposited_columns_ok:
  assumes "uint (bytesRx l) < 2 ^ 31" "uint (bytesTx l) < 2 ^ 31"
  shows "length (deposited_columns l) = 4" "\<forall>c\<in>set (deposited_columns l). - (2 ^ 31) \<le> c \<and> c < 2 ^ 31"
proof -
  have "- (2 ^ 31) \<le> sint (w :: i32) \<and> sint w < 2 ^ 31" for w
    using sint_greater_eq [of w] sint_less [of w] by simp
  then show "\<forall>c\<in>set (deposited_columns l). - (2 ^ 31) \<le> c \<and> c < 2 ^ 31"
    unfolding deposited_columns_def by simp
qed (simp add: deposited_columns_def)

lemma sum_line_append:
  assumes "t \<le> now" "uint (bytesRx l) < 2 ^ 31" "uint (bytesTx l) < 2 ^ 31"
  shows "sum_line (\<lambda>x. t \<le> x) (rs @ [(now, deposited_columns l)]) = sum_line (\<lambda>x. t \<le> x) rs + l"
proof -
  have "deposited_columns l ! 0 = uint (bytesRx l)" "deposited_columns l ! 1 = uint (bytesTx l)"
    "deposited_columns l ! 2 = sint (pktRxCount l)" "deposited_columns l ! 3 = sint (pktTxCount l)"
    using assms(2,3) by (simp_all add: deposited_columns_def sint_ucast_small numeral_2_eq_2 numeral_3_eq_3)
  then show ?thesis
    using assms(1) by (cases l) (simp add: sum_line_def column_sum_append_row plus_TrafficLine_ext_def)
qed

lemma table_ok_append:
  assumes "table_ok t latest rs" "latest < now" "t \<le> now" "uint (bytesRx l) < 2 ^ 31" "uint (bytesTx l) < 2 ^ 31"
  shows "table_ok t now (rs @ [(now, deposited_columns l)])"
proof -
  have "now \<notin> fst ` set rs" using assms(1,2) by (auto simp: table_ok_def)
  with assms(1-3) deposited_columns_ok [OF assms(4,5)] show ?thesis
    by (auto simp: table_ok_def own_rows_def)
qed

text \<open>The table of a name before and after a deposit.\<close>

lemma deposit_table:
  assumes it: "iterates iterate" "finite (dom m)" and names: "good_names names" and sub: "dom m \<subseteq> names"
    and tabs: "tables_ok names t latest tabs" and now: "- (2 ^ 31) \<le> sint now" "sint now < 2 ^ 31" "latest < sint now"
  shows "after_deposit now (iterate m) tabs k =
    (case first_for k (iterate m) of
       None \<Rightarrow> tabs k
     | Some (n, l) \<Rightarrow> Some (n, snd (table_of n (tabs k)) @ [(sint now, deposited_columns l)])) \<and>
    (\<forall>n l. first_for k (iterate m) = Some (n, l) \<longrightarrow> m n = Some l \<and> table_key n = k \<and>
       (tabs k = None \<or> (\<exists>rs. tabs k = Some (n, rs))) \<and> table_ok t latest (snd (table_of n (tabs k))))"
proof (cases "first_for k (iterate m)")
  case None
  then show ?thesis by (simp add: after_deposit_def)
next
  case (Some x)
  obtain n l where x: "x = (n, l)" by fastforce
  have m: "map_of (iterate m) = m" "distinct (map fst (iterate m))" using it by (simp_all add: iterates_def)
  from first_for_SomeD [OF Some [unfolded x]] have n: "m n = Some l" "table_key n = k"
    using m by (metis map_of_eq_Some_iff)+
  then have "n \<in> names" using sub by auto
  have own: "tabs k = None \<or> (\<exists>rs. tabs k = Some (n, rs) \<and> table_ok t latest rs)"
  proof (cases "tabs k")
    case (Some e)
    obtain n' rs where e: "e = (n', rs)" by fastforce
    with Some tabs have "n' \<in> names" "table_key n' = k" "table_ok t latest rs" by (auto simp: tables_ok_def)
    with names n(2) \<open>n \<in> names\<close> have "n' = n" by (auto simp: good_names_def dest: inj_onD)
    with Some e \<open>table_ok t latest rs\<close> show ?thesis by simp
  qed simp
  then have "table_ok t latest (snd (table_of n (tabs k)))" "fst (table_of n (tabs k)) = n"
    by (auto simp: table_of_def table_ok_def own_rows_def)
  moreover have "sint now \<notin> fst ` set (snd (table_of n (tabs k)))"
    using \<open>table_ok t latest (snd (table_of n (tabs k)))\<close> now(3) by (auto simp: table_ok_def)
  ultimately show ?thesis
    using Some x n own sint_ucast_i32 [OF now(1,2)]
    by (auto simp: after_deposit_def deposit_row_def add_row_def case_prod_beta)
qed

lemma deposit_fitsD:
  assumes "deposit_fits names latest now m" "t \<le> latest + 1"
  shows "- (2 ^ 31) \<le> t \<Longrightarrow> - (2 ^ 31) \<le> sint now" "sint now < 2 ^ 31" "latest < sint now" "t \<le> sint now" "dom m \<subseteq> names"
    and "m n = Some l \<Longrightarrow> uint (bytesRx l) < 2 ^ 31" "m n = Some l \<Longrightarrow> uint (bytesTx l) < 2 ^ 31"
  using assms by (auto simp: deposit_fits_def dest: ranI)

text \<open>A name without a row in a deposit was not in the storage.\<close>

lemma not_deposited:
  assumes "iterates iterate" "finite (dom m)" "good_names names" "dom m \<subseteq> names" "first_for (table_key name) (iterate m) = None"
  shows "m name = None"
proof (rule ccontr)
  assume "m name \<noteq> None"
  then obtain l where l: "m name = Some l" by auto
  then have "(name, l) \<in> set (iterate m)" using assms(1,2) by (metis iterates_def map_of_SomeD)
  moreover have "CHR '';'' \<notin> set name"
    using l assms(3,4) plain_chars(2) by (auto simp: good_names_def)
  ultimately show False using assms(5) by (auto simp: first_for_def find_None_iff)
qed

lemma deposit_tables_ok:
  assumes it: "iterates iterate" "finite (dom m)" and names: "good_names names" and fits: "deposit_fits names latest now m"
    and tabs: "tables_ok names t latest tabs" and t: "- (2 ^ 31) \<le> t" "t \<le> latest + 1"
  shows "tables_ok names t (sint now) (after_deposit now (iterate m) tabs)"
  unfolding tables_ok_def
proof (intro allI impI)
  note fit = deposit_fitsD [OF fits t(2)]
  note table = deposit_table [OF it names fit(5) tabs fit(1) [OF t(1)] fit(2,3)]
  fix k n rs
  assume after: "after_deposit now (iterate m) tabs k = Some (n, rs)"
  show "n \<in> names \<and> table_key n = k \<and> table_ok t (sint now) rs"
  proof (cases "first_for k (iterate m)")
    case None
    with after table [of k] have "tabs k = Some (n, rs)" by simp
    with tabs have "n \<in> names" "table_key n = k" "table_ok t latest rs" by (auto simp: tables_ok_def)
    with fit(3) show ?thesis by (force simp: table_ok_def)
  next
    case (Some x)
    obtain n' l where x: "x = (n', l)" by fastforce
    from table [of k] Some x after have "n = n'" "rs = snd (table_of n' (tabs k)) @ [(sint now, deposited_columns l)]"
      "m n' = Some l" "table_key n' = k" "table_ok t latest (snd (table_of n' (tabs k)))"
      by auto
    with fit(5) table_ok_append [OF _ fit(3,4) fit(6,7)] show ?thesis by auto
  qed
qed

lemma deposit_kept_line:
  assumes it: "iterates iterate" "finite (dom m)" and names: "good_names names" and fits: "deposit_fits names latest now m"
    and tabs: "tables_ok names t latest tabs" and t: "- (2 ^ 31) \<le> t" "t \<le> latest + 1"
  shows "kept_line t (after_deposit now (iterate m) tabs) name = kept_line t tabs name + line_of m name"
proof -
  note fit = deposit_fitsD [OF fits t(2)]
  note table = deposit_table [OF it names fit(5) tabs fit(1) [OF t(1)] fit(2,3), of "table_key name"]
  show ?thesis
  proof (cases "first_for (table_key name) (iterate m)")
    case None
    with not_deposited [OF it names fit(5)] table show ?thesis by (simp add: kept_line_def line_of_def)
  next
    case (Some x)
    obtain n l where x: "x = (n, l)" by fastforce
    let ?rs = "snd (table_of n (tabs (table_key name)))"
    from table Some x have
      after: "after_deposit now (iterate m) tabs (table_key name) = Some (n, ?rs @ [(sint now, deposited_columns l)])"
      and n: "m n = Some l" "table_key n = table_key name"
      "tabs (table_key name) = None \<or> (\<exists>rs. tabs (table_key name) = Some (n, rs))"
      by auto
    show ?thesis
    proof (cases "n = name")
      case True
      with n(3) have "kept_line t tabs name = sum_line (\<lambda>x. t \<le> x) ?rs"
        by (auto simp: kept_line_def table_of_def sum_line_def zero_TrafficLine_ext_def zero_unit_def)
      with True after n(1) sum_line_append [OF fit(4) fit(6,7) [OF n(1)]] show ?thesis
        by (simp add: kept_line_def line_of_def)
    next
      case False
      then have "m name = None" using names n(1,2) fit(5) by (auto simp: good_names_def dest: inj_onD)
      with False after n(3) show ?thesis by (auto simp: kept_line_def line_of_def)
    qed
  qed
qed

section \<open>The history\<close>

definition sys_ok ::
  "('db \<Rightarrow> bool) \<Rightarrow> ('db \<Rightarrow> tables) \<Rightarrow> string set \<Rightarrow> int \<Rightarrow> int \<Rightarrow> 'db system \<Rightarrow> bool" where
  "sys_ok idle tables names t latest s \<longleftrightarrow> sniffer_ok (sys_sniffer s) \<and> finite (dom (mApplicationTraffic (sys_storage s))) \<and>
     idle (sys_db s) \<and> tables_ok names t latest (tables (sys_db s))"

text \<open>What the database holds since \<open>t\<close>, what waits for the next deposit, and what is in hand.\<close>

definition history :: "('db \<Rightarrow> tables) \<Rightarrow> int \<Rightarrow> 'db system \<Rightarrow> string \<Rightarrow> TrafficLine" where
  "history tables t s name =
     kept_line t (tables (sys_db s)) name + line_of (mApplicationTraffic (sys_storage s)) name + in_hand s name"

lemma sniffer_ok_forget:
  assumes "sniffer_ok s"
  shows "sniffer_ok (s\<lparr>mProcessResolver := (mProcessResolver s)\<lparr>mSocketIndex := SocketIndex_forget (mSocketIndex (mProcessResolver s))\<rparr>\<rparr>)"
    and "sniffer_ok (s\<lparr>mProcessResolver := (mProcessResolver s)\<lparr>mProcessIndex := ProcessIndex_forget (mProcessIndex (mProcessResolver s))\<rparr>\<rparr>)"
  using assms by (simp_all add: sniffer_ok_def resolver_ok_def sockets.ok_forget processes.ok_forget)

lemma captured_history:
  assumes ok: "sys_ok idle tables names t latest s" and a: "act iterate sq (Captured env hdr raw) s = Inr s'"
  shows "sys_ok idle tables names t latest s'"
    and "history tables t s' name = history tables t s name + credit (Captured env hdr raw) s name"
proof -
  have sn: "sniffer_ok (sys_sniffer s)" using ok by (simp add: sys_ok_def)
  have "sys_ok idle tables names t latest s' \<and> history tables t s' name = history tables t s name + credit (Captured env hdr raw) s name"
  proof (cases "sys_pending s")
    case None
    with a obtain q sn' ts' where c: "pktCallback_fetch env hdr raw (sys_sniffer s, sys_storage s) = Inr (q, sn', ts')"
      and s': "s' = s\<lparr>sys_sniffer := sn', sys_storage := ts', sys_pending := q\<rparr>"
      by (auto split: sum.splits)
    from c show ?thesis
    proof (cases rule: fetch_cases)
      case (discarded p)
      with discard_iff [OF sn discarded(1)] ok None show ?thesis by (simp add: sys_ok_def history_def in_hand_def s')
    next
      case (kept p x r)
      have "sniffer_ok sn'" using sn kept(5) resolver_ok_resolve [OF _ kept(3)] by (simp add: sniffer_ok_def)
      moreover have "finite (dom (mApplicationTraffic ts'))" using ok kept(6) by (simp add: sys_ok_def TrafficStorage_line_def)
      ultimately show ?thesis
        using kept discard_iff [OF sn kept(1)] ok None by (simp add: sys_ok_def history_def in_hand_def s')
    qed
  qed (use ok a in auto)
  then show "sys_ok idle tables names t latest s'"
    "history tables t s' name = history tables t s name + credit (Captured env hdr raw) s name" by blast+
qed

lemma accounted_history:
  assumes ok: "sys_ok idle tables names t latest s" and a: "act iterate sq Accounted s = Inr s'"
  shows "sys_ok idle tables names t latest s'" "history tables t s' name = history tables t s name"
proof -
  have "sys_ok idle tables names t latest s' \<and> history tables t s' name = history tables t s name"
  proof (cases "sys_pending s")
    case (Some x)
    obtain q p where x: "x = (q, p)" by fastforce
    from a Some x obtain ts where ts: "TrafficStorage_account q p (sys_storage s) = Inr ts"
      and s': "s' = s\<lparr>sys_storage := ts, sys_pending := None\<rparr>"
      by (auto split: sum.splits)
    from ts ok show ?thesis
      by (elim account_InrE) (simp add: sys_ok_def history_def in_hand_def s' Some x line_of_upd add.assoc)
  qed (use ok a in simp)
  then show "sys_ok idle tables names t latest s'" "history tables t s' name = history tables t s name" by blast+
qed

lemma act_deposit:
  assumes "act iterate sq (Deposit_due now) s = Inr s'"
  shows "mApplicationTraffic (sys_storage s') = Map.empty" "sys_sniffer s' = sys_sniffer s" "sys_pending s' = sys_pending s"
    and "sys_db s' = insertApplicationTraffic sq now (iterate (mApplicationTraffic (sys_storage s))) (sys_db s)"
proof -
  from assms obtain ts' mem' where d: "deposit (\<lambda>m. insertApplicationTraffic sq now (iterate m)) (sys_storage s) (sys_memory s) (sys_db s)
      = Inr (ts', mem', sys_db s')" and s': "sys_sniffer s' = sys_sniffer s" "sys_storage s' = ts'" "sys_pending s' = sys_pending s"
    by (auto simp: deposit_in_db_def split: sum.splits)
  show "sys_db s' = insertApplicationTraffic sq now (iterate (mApplicationTraffic (sys_storage s))) (sys_db s)"
    by (rule deposit_InrD [OF d])
  have "mApplicationTraffic ts' = Map.empty"
    using d by (auto simp: deposit_def Let_def split: sum.splits)
  then show "mApplicationTraffic (sys_storage s') = Map.empty" using s'(2) by simp
  show "sys_sniffer s' = sys_sniffer s" "sys_pending s' = sys_pending s" by (rule s')+
qed

lemma deposited_history:
  assumes it: "iterates iterate" and db: "sqlite_ok sq idle tables" and names: "good_names names"
    and ok: "sys_ok idle tables names t latest s" and a: "act iterate sq (Deposit_due now) s = Inr s'"
    and fits: "deposit_fits names latest now (mApplicationTraffic (sys_storage s))" and t: "- (2 ^ 31) \<le> t" "t \<le> latest + 1"
  shows "sys_ok idle tables names t (sint now) s'" "history tables t s' name = history tables t s name"
proof -
  let ?m = "mApplicationTraffic (sys_storage s)"
  have fin: "finite (dom ?m)" and idle: "idle (sys_db s)" and tabs: "tables_ok names t latest (tables (sys_db s))"
    using ok by (simp_all add: sys_ok_def)
  have "\<forall>x\<in>set (iterate ?m). ?m (fst x) = Some (snd x)"
    using it fin by (metis iterates_def map_of_eq_Some_iff prod.collapse)
  then have dep: "depositable (iterate ?m)"
    using fits names by (force simp: depositable_def deposit_fits_def good_names_def)
  note eq = act_deposit [OF a]
  show "sys_ok idle tables names t (sint now) s'" "history tables t s' name = history tables t s name"
    using deposit_effect [OF db idle dep, of now] deposit_tables_ok [OF it fin names fits tabs t]
      deposit_kept_line [OF it fin names fits tabs t, of name] ok
    by (simp_all add: sys_ok_def history_def in_hand_def eq)
qed

text \<open>The time of the latest deposit after an action, and whether the action is one that loses nothing.\<close>

definition latest_after :: "action \<Rightarrow> int \<Rightarrow> int" where
  "latest_after a latest = (case a of Deposit_due now \<Rightarrow> sint now | _ \<Rightarrow> latest)"

definition action_fits :: "string set \<Rightarrow> int \<Rightarrow> action \<Rightarrow> 'db system \<Rightarrow> bool" where
  "action_fits names latest a s =
     (case a of Deposit_due now \<Rightarrow> deposit_fits names latest now (mApplicationTraffic (sys_storage s)) | _ \<Rightarrow> True)"

lemma act_history:
  assumes it: "iterates iterate" and db: "sqlite_ok sq idle tables" and names: "good_names names"
    and ok: "sys_ok idle tables names t latest s" and a: "act iterate sq a s = Inr s'"
    and fits: "action_fits names latest a s" and t: "- (2 ^ 31) \<le> t" "t \<le> latest + 1" "latest < 2 ^ 31"
  shows "sys_ok idle tables names t (latest_after a latest) s'"
    and "history tables t s' name = history tables t s name + credit a s name"
    and "t \<le> latest_after a latest + 1" "latest_after a latest < 2 ^ 31"
proof -
  have "sys_ok idle tables names t (latest_after a latest) s' \<and>
    history tables t s' name = history tables t s name + credit a s name \<and>
    t \<le> latest_after a latest + 1 \<and> latest_after a latest < 2 ^ 31"
  proof (cases a)
    case (Captured env hdr raw)
    with captured_history [OF ok a [unfolded Captured]] t show ?thesis by (simp add: latest_after_def)
  next
    case Accounted
    with accounted_history [OF ok a [unfolded Accounted]] t show ?thesis by (simp add: latest_after_def)
  next
    case (Deposit_due now)
    with fits have fit: "deposit_fits names latest now (mApplicationTraffic (sys_storage s))" by (simp add: action_fits_def)
    with deposited_history [OF it db names ok a [unfolded Deposit_due] fit t(1,2)] Deposit_due t(2) show ?thesis
      by (simp add: deposit_fits_def latest_after_def)
  qed (use a ok t in \<open>auto simp: sys_ok_def history_def in_hand_def sniffer_ok_forget latest_after_def\<close>)
  then show "sys_ok idle tables names t (latest_after a latest) s'"
    "history tables t s' name = history tables t s name + credit a s name"
    "t \<le> latest_after a latest + 1" "latest_after a latest < 2 ^ 31"
    by blast+
qed

section \<open>What a query delivers of it\<close>

lemma tables_ok_summable:
  assumes "tables_ok names t latest tabs" "good_names names" "- (2 ^ 31) \<le> t" "latest < 2 ^ 31"
  shows "summable (\<lambda>x. t \<le> x) tabs"
  using assms table_ok_fits [OF _ assms(3,4)] by (fastforce simp: summable_def tables_ok_def good_names_def ran_def)

lemma line_of_summed: "line_of (summed (\<lambda>x. t \<le> x) tabs) name = kept_line t tabs name"
  by (auto simp: line_of_def summed_def kept_line_def TrafficLine_empty_iff TrafficLine_init_zero
      split: option.split)

lemma finite_summed:
  assumes "sqlite_ok sq idle tables"
  shows "finite (dom (summed P (tables db)))"
proof (rule finite_subset)
  show "dom (summed P (tables db)) \<subseteq> {n. Some n \<in> set (sq_texts sq sqlGetApps db)}"
    by (auto simp: sqlite_ok_names [OF assms] summed_def split: option.splits if_splits)
  have "{n. Some n \<in> set (sq_texts sq sqlGetApps db)} \<subseteq> the ` set (sq_texts sq sqlGetApps db)" by force
  then show "finite {n. Some n \<in> set (sq_texts sq sqlGetApps db)}" by (rule finite_subset) simp
qed

lemma kept_line_start:
  assumes "tables_ok names t (t - 1) tabs"
  shows "kept_line t tabs name = 0"
proof (cases "tabs (table_key name)")
  case (Some e)
  obtain m rs where e: "e = (m, rs)" by fastforce
  with Some assms have "\<forall>r\<in>set rs. \<not> t \<le> fst r" by (force simp: tables_ok_def table_ok_def)
  then have "sum_line (\<lambda>x. t \<le> x) rs = 0"
    by (simp add: sum_line_def column_sum_unselected zero_TrafficLine_ext_def zero_unit_def)
  with Some e show ?thesis by (simp add: kept_line_def)
qed (simp add: kept_line_def)

lemma plain_utf8: "plain_name name \<Longrightarrow> utf8 name"
  by (rule utf8_ascii) (force simp only: plain_name_def list_all_iff atLeastLessThan_iff)

lemma summed_names:
  assumes "tables_ok names t latest tabs" "good_names names" "summed P tabs name = Some l"
  shows "utf8 name"
proof -
  from assms(3) obtain m rs where "tabs (table_key name) = Some (m, rs)" "m = name"
    by (auto simp: summed_def split: option.splits if_splits)
  with assms(1,2) show ?thesis by (auto simp: tables_ok_def good_names_def intro: plain_utf8)
qed

text \<open>The reply to a query since \<open>t\<close>, for one application.\<close>

lemma since_reply:
  assumes it: "iterates iterate" and db: "sqlite_ok sq idle tables" and names: "good_names names"
    and tabs: "tables_ok names (sint since) latest (tables db)" and latest: "latest < 2 ^ 31"
  shows "\<exists>reply. handle_request (api_of iterate sq day ts db)
      (Some (''traffic-since '' @ to_string (sint (since :: i32)) @ [CHR 0x0A])) = Inr (Reply reply) \<and>
    json_get ''result'' reply = JText ''success'' \<and>
    json_get name (json_get ''data'' reply) =
      (if kept_line (sint since) (tables db) name = 0 then JNull else line_json (kept_line (sint since) (tables db) name)) \<and>
    json_utf8 reply"
proof -
  let ?P = "\<lambda>x. sint since \<le> x"
  have t: "- (2 ^ 31) \<le> sint since" using sint_greater_eq [of since] by simp
  have same: "sint (scast since :: i64) = sint since" by (simp add: sint_up_scast is_up)
  have fetch: "fetchTrafficSince sq (scast since) db = summed ?P (tables db)"
    using fetch_since_summed [OF db, of "scast since" db] tables_ok_summable [OF tabs names t latest] by (simp add: same)
  let ?m = "summed ?P (tables db)"
  have m: "distinct (map fst (iterate ?m))" "map_of (iterate ?m) = ?m"
    using it finite_summed [OF db] by (simp_all add: iterates_def)
  have "utf8 (fst x)" if "x \<in> set (iterate ?m)" for x
    using m that summed_names [OF tabs names, of ?P "fst x" "snd x"] by (metis map_of_eq_Some_iff prod.collapse)
  then have "json_utf8 (success_json (trafficToJson (iterate ?m)))" by (simp add: json_utf8_traffic)
  moreover have "?m name = (if kept_line (sint since) (tables db) name = 0 then None
      else Some (kept_line (sint since) (tables db) name))"
    by (auto simp: summed_def kept_line_def TrafficLine_empty_iff TrafficLine_init_zero split: option.split)
  ultimately show ?thesis
    using success_reply(1) [OF m(1)] success_reply(3) [OF m(1), of name] m(2) request_since [of "api_of iterate sq day ts db" since]
    by (simp add: api_of_def fetch)
qed

end
