(* ===== verification/Service.thy ===== *)
theory Service
  imports Program
begin

text \<open>
  The whole service: the state of \<open>Program\<close> with the API server, the threads of its live streams, the
  signals and the test of the main loop. A step is what one thread does up to the next point where it waits
  for, or gives up, a lock of the storage; any thread may take the next step. A query of the database does not
  wait for that lock, so that it may also fall into a deposit. Where a step ends the process it says why. \<open>dump\<close> is the JSON library's.
\<close>

section \<open>State\<close>

text \<open>A live stream's thread: its descriptor, whether it is \<open>liveText\<close> or \<open>live\<close>, and where it is.\<close>

record client =
  client_fd :: nat
  client_text :: bool
  client_pc :: stream_pc

text \<open>The streams have the numbers in which they were started; \<open>srv_sent\<close> is what happened to descriptors.\<close>

record 'db service =
  srv_system :: "'db system"
  srv_serving :: bool
  srv_sent :: "server_action list"
  srv_started :: nat
  srv_clients :: "nat \<rightharpoonup> client"
  srv_messages :: "(nat \<times> message) list"
  srv_handled :: "signal \<Rightarrow> bool"
  srv_daemon :: daemon_state

datatype service_end = Ended server_end | Killed signal | Finished

text \<open>
  A step: an action of the threads of \<open>Program\<close>; a connection, with the start of the day, what it
  delivers, whether it is broken by the time of the reply, and whether the peer still takes the welcome
  of a text stream; a connection whose queries fall into a deposit, with the second of the deposit and
  the applications whose rows they see; a turn of a stream, with whether its message can be sent; a signal; and the test
  of the main loop.
\<close>

datatype thread_step = Thread action | Connection i64 nat "string option" bool bool | Stream_turn nat bool
  | Connection_amid i64 "string list" i64 nat "string option" bool bool | Signalled signal | Loop_test

section \<open>Steps\<close>

definition start_stream :: "nat \<Rightarrow> bool \<Rightarrow> 'db service \<Rightarrow> 'db service" where
  "start_stream fd text w =
     w\<lparr>srv_clients := (srv_clients w)(srv_started w \<mapsto> \<lparr>client_fd = fd, client_text = text, client_pc = Starting\<rparr>),
       srv_started := srv_started w + 1\<rparr>"

text \<open>The threads that a connection starts; \<open>liveText\<close> returns at once when its welcome cannot be sent.\<close>

fun start_threads :: "server_action list \<Rightarrow> bool \<Rightarrow> 'db service \<Rightarrow> 'db service" where
  "start_threads [Live_thread fd] welcomed w = start_stream fd False w"
| "start_threads [Live_text_thread fd] welcomed w = (if welcomed then start_stream fd True w else w)"
| "start_threads _ welcomed w = w"

text \<open>
  A connection; its queries are made on the given database. The API's thread does not hold the storage's lock
  then, so that a deposit may be under way.
\<close>

definition connection ::
  "(json \<Rightarrow> string option) \<Rightarrow> (TrafficMap \<Rightarrow> (string \<times> TrafficLine) list) \<Rightarrow> 'db sqlite \<Rightarrow> 'db \<Rightarrow> i64 \<Rightarrow> nat \<Rightarrow> string option \<Rightarrow> bool \<Rightarrow> bool \<Rightarrow>
     'db service \<Rightarrow> service_end + 'db service" where
  "connection dump iterate sq db day fd received broken welcomed w =
     (if \<not> srv_serving w then Inr w
      else case server_turn dump (Accepted (api_of iterate sq day (sys_storage (srv_system w)) db) fd received broken) of
        Inl r \<Rightarrow> Inl (Ended r)
      | Inr sent \<Rightarrow> Inr (start_threads sent welcomed (w\<lparr>srv_sent := srv_sent w @ sent\<rparr>)))"

definition amid_deposit ::
  "(TrafficMap \<Rightarrow> (string \<times> TrafficLine) list) \<Rightarrow> 'db sqlite \<Rightarrow> i64 \<Rightarrow> string list \<Rightarrow> 'db service \<Rightarrow> 'db" where
  "amid_deposit iterate sq now seen w =
     amid_insert sq now seen (iterate (mApplicationTraffic (sys_storage (srv_system w)))) (sys_db (srv_system w))"

text \<open>The text or the JSON value that a stream sends for a message; the value is printed first.\<close>

definition stream_payload ::
  "(json \<Rightarrow> string option) \<Rightarrow> (TrafficMap \<Rightarrow> (string \<times> TrafficLine) list) \<Rightarrow> bool \<Rightarrow> message \<Rightarrow> (abort + (string + json)) option" where
  "stream_payload dump iterate text m =
     (if text
      then (case live_text_payload iterate m of
              None \<Rightarrow> None | Some (Inl a) \<Rightarrow> Some (Inl a) | Some (Inr t) \<Rightarrow> Some (Inr (Inl t)))
      else (case live_payload iterate m of
              None \<Rightarrow> Some (Inl Undefined)
            | Some j \<Rightarrow> (case dump j of None \<Rightarrow> Some (Inl Json_error) | Some msg \<Rightarrow> Some (Inr (Inr j)))))"

definition move_client :: "nat \<Rightarrow> client \<Rightarrow> stream_pc \<Rightarrow> TrafficStorage \<Rightarrow> api_memory \<Rightarrow> 'db service \<Rightarrow> 'db service" where
  "move_client a c pc ts mem w =
     w\<lparr>srv_system := (srv_system w)\<lparr>sys_storage := ts, sys_memory := mem\<rparr>,
       srv_clients := (srv_clients w)(a \<mapsto> c\<lparr>client_pc := pc\<rparr>)\<rparr>"

text \<open>
  The loop of \<open>live\<close> and \<open>liveText\<close> up to the next point where another thread can run. \<open>live\<close> refuses
  without \<open>MSG_NOSIGNAL\<close>. A thread whose mutex is locked waits, and one that computes a text without an
  end computes on.
\<close>

definition stream_turn ::
  "(json \<Rightarrow> string option) \<Rightarrow> (TrafficMap \<Rightarrow> (string \<times> TrafficLine) list) \<Rightarrow> nat \<Rightarrow> bool \<Rightarrow> 'db service \<Rightarrow> service_end + 'db service" where
  "stream_turn dump iterate a ok w =
     (let ts = sys_storage (srv_system w); mem = sys_memory (srv_system w)
      in case srv_clients w a of
        None \<Rightarrow> Inr w
      | Some c \<Rightarrow> (case client_pc c of
          Starting \<Rightarrow> (case awaitSnapshot a a a ts (mem(a \<mapsto> new_frame)) of
              Inl e \<Rightarrow> Inl (Ended (Aborted e))
            | Inr (True, ts, mem) \<Rightarrow> Inr (move_client a c Awaiting ts mem w)
            | Inr (False, ts, mem) \<Rightarrow> (case stream_payload dump iterate (client_text c) Refused of
                None \<Rightarrow> Inr w
              | Some (Inl e) \<Rightarrow> Inl (Ended (Aborted e))
              | Some (Inr payload) \<Rightarrow>
                  if \<not> client_text c \<and> \<not> ok then Inl (Ended Sigpipe)
                  else Inr ((move_client a c Closed ts (mem(a := None)) w)
                       \<lparr>srv_messages := srv_messages w @ [(a, Refused)], srv_sent := srv_sent w @ [Closed_fd (client_fd c)]\<rparr>)))
        | Awaiting \<Rightarrow> (case mem a of
              None \<Rightarrow> Inl (Ended (Aborted Undefined))
            | Some f \<Rightarrow> if await_locked f then Inr w else Inr (move_client a c Sending ts (mem(a \<mapsto> f\<lparr>await_locked := True\<rparr>)) w))
        | Sending \<Rightarrow> (case mem a of
              None \<Rightarrow> Inl (Ended (Aborted Undefined))
            | Some f \<Rightarrow> (case stream_payload dump iterate (client_text c) (Update (trafficMap f) (frame_interval f)) of
                None \<Rightarrow> Inr w
              | Some (Inl e) \<Rightarrow> Inl (Ended (Aborted e))
              | Some (Inr payload) \<Rightarrow>
                  if ok then Inr ((move_client a c Starting ts (mem(a := None)) w)
                    \<lparr>srv_messages := srv_messages w @ [(a, Update (trafficMap f) (frame_interval f))]\<rparr>)
                  else Inr ((move_client a c Closed ts (mem(a := None)) w)\<lparr>srv_sent := srv_sent w @ [Closed_fd (client_fd c)]\<rparr>)))
        | Closed \<Rightarrow> Inr w))"

text \<open>The main loop is tested by the thread of the sniffer, so not while a packet is in hand.\<close>

fun service_step ::
  "(json \<Rightarrow> string option) \<Rightarrow> (TrafficMap \<Rightarrow> (string \<times> TrafficLine) list) \<Rightarrow> 'db sqlite \<Rightarrow> thread_step \<Rightarrow> 'db service \<Rightarrow> service_end + 'db service" where
  "service_step dump iterate sq (Thread a) w =
     (case act iterate sq a (srv_system w) of Inl e \<Rightarrow> Inl (Ended (Aborted e)) | Inr s \<Rightarrow> Inr (w\<lparr>srv_system := s\<rparr>))"
| "service_step dump iterate sq (Connection day fd received broken welcomed) w =
     connection dump iterate sq (sys_db (srv_system w)) day fd received broken welcomed w"
| "service_step dump iterate sq (Connection_amid now seen day fd received broken welcomed) w =
     connection dump iterate sq (amid_deposit iterate sq now seen w) day fd received broken welcomed w"
| "service_step dump iterate sq (Stream_turn a ok) w = stream_turn dump iterate a ok w"
| "service_step dump iterate sq (Signalled signal) w =
     (if srv_handled w signal then Inr (w\<lparr>srv_daemon := signalHandler signal (srv_daemon w)\<rparr>) else Inl (Killed signal))"
| "service_step dump iterate sq Loop_test w =
     (if sys_pending (srv_system w) \<noteq> None then Inr w
      else let (continue, d) = running (srv_daemon w) in if continue then Inr (w\<lparr>srv_daemon := d\<rparr>) else Inl Finished)"

fun service_run ::
  "(json \<Rightarrow> string option) \<Rightarrow> (TrafficMap \<Rightarrow> (string \<times> TrafficLine) list) \<Rightarrow> 'db sqlite \<Rightarrow> thread_step list \<Rightarrow> 'db service \<Rightarrow> service_end + 'db service" where
  "service_run dump iterate sq [] w = Inr w"
| "service_run dump iterate sq (e # es) w =
     (case service_step dump iterate sq e w of Inl r \<Rightarrow> Inl r | Inr w' \<Rightarrow> service_run dump iterate sq es w')"

text \<open>
  The start, in the order of \<open>main\<close>: the signal handlers, the storage, the API server, the sniffer.
\<close>

definition service_start :: "start_env \<Rightarrow> socket_env \<Rightarrow> (signal \<Rightarrow> bool) \<Rightarrow> 'db \<Rightarrow> abort + 'db service" where
  "service_start env sockets handled db =
     (case main_start env of
        Inl a \<Rightarrow> Inl a
      | Inr p \<Rightarrow>
          (let (handled, daemon) = Daemon_new handled
           in Inr \<lparr>srv_system = system_of p db, srv_serving = startSocketServer sockets (cfg_serverPort (prog_config p)),
                srv_sent = [], srv_started = 0, srv_clients = Map.empty, srv_messages = [],
                srv_handled = handled, srv_daemon = daemon\<rparr>))"

section \<open>The streams of the service\<close>

text \<open>The service as a state of \<open>Live_Stream\<close>, with the traffic of the deposits so far.\<close>

definition live_of :: "TrafficMap list \<Rightarrow> 'db service \<Rightarrow> live_system" where
  "live_of ds w =
     \<lparr>storage = sys_storage (srv_system w), memory = sys_memory (srv_system w),
      streams = (\<lambda>a. map_option client_pc (srv_clients w a)), messages = srv_messages w,
      pending = sys_pending (srv_system w), deposits = ds\<rparr>"

definition step_deposits :: "thread_step \<Rightarrow> 'db service \<Rightarrow> TrafficMap list" where
  "step_deposits e w = (case e of Thread (Deposit_due now) \<Rightarrow> [mApplicationTraffic (sys_storage (srv_system w))] | _ \<Rightarrow> [])"

fun run_deposits ::
  "(json \<Rightarrow> string option) \<Rightarrow> (TrafficMap \<Rightarrow> (string \<times> TrafficLine) list) \<Rightarrow> 'db sqlite \<Rightarrow> thread_step list \<Rightarrow> 'db service \<Rightarrow> TrafficMap list" where
  "run_deposits dump iterate sq [] w = []"
| "run_deposits dump iterate sq (e # es) w =
     step_deposits e w @ (case service_step dump iterate sq e w of Inl _ \<Rightarrow> [] | Inr w' \<Rightarrow> run_deposits dump iterate sq es w')"

text \<open>The numbers from \<open>srv_started\<close> on are free.\<close>

definition numbered :: "'db service \<Rightarrow> bool" where
  "numbered w \<longleftrightarrow> (\<forall>a\<ge>srv_started w. srv_clients w a = None)"

lemma live_of_simps [simp]:
  "storage (live_of ds w) = sys_storage (srv_system w)" "memory (live_of ds w) = sys_memory (srv_system w)"
  "streams (live_of ds w) a = map_option client_pc (srv_clients w a)" "messages (live_of ds w) = srv_messages w"
  "pending (live_of ds w) = sys_pending (srv_system w)" "deposits (live_of ds w) = ds"
  by (simp_all add: live_of_def)

lemma live_of_eqI:
  assumes "sys_storage (srv_system w) = storage l" "sys_memory (srv_system w) = memory l"
    and "\<And>a. map_option client_pc (srv_clients w a) = streams l a" "srv_messages w = messages l"
    and "pending l = sys_pending (srv_system w)" "deposits l = ds"
  shows "l = live_of ds w"
  using assms by (cases l) (simp add: live_of_def fun_eq_iff)

lemma streams_thread:
  assumes "act iterate sq a (srv_system w) = Inr s"
  shows "\<exists>les. live_run (live_of ds w) les (live_of (ds @ step_deposits (Thread a) w) (w\<lparr>srv_system := s\<rparr>))"
proof (cases a)
  case (Captured env hdr raw)
  show ?thesis
  proof (cases "sys_pending (srv_system w)")
    case None
    with Captured assms obtain q sn ts where c: "pktCallback_fetch env hdr raw (sys_sniffer (srv_system w), sys_storage (srv_system w)) = Inr (q, sn, ts)"
      and s: "s = (srv_system w)\<lparr>sys_sniffer := sn, sys_storage := ts, sys_pending := q\<rparr>"
      by (auto split: sum.splits)
    from c show ?thesis
    proof (cases rule: fetch_cases)
      case discarded
      then have "live_of ds (w\<lparr>srv_system := s\<rparr>) = live_of ds w" by (simp add: live_of_def s None)
      then show ?thesis using Captured by (auto simp: step_deposits_def intro!: exI [of _ "[]"])
    next
      case (kept p x r)
      then have "live_of ds (w\<lparr>srv_system := s\<rparr>) =
          (live_of ds w)\<lparr>storage := TrafficStorage_line x (sys_storage (srv_system w)), pending := Some (x, p)\<rparr>"
        by (simp add: live_of_def s)
      then have "live_step (live_of ds w) (Fetch x p) (live_of ds (w\<lparr>srv_system := s\<rparr>))" using None by simp
      then show ?thesis using Captured by (auto simp: step_deposits_def run_single [symmetric])
    qed
  next
    case (Some x)
    with Captured assms have "live_of ds (w\<lparr>srv_system := s\<rparr>) = live_of ds w" by (auto simp: live_of_def)
    then show ?thesis using Captured by (auto simp: step_deposits_def intro!: exI [of _ "[]"])
  qed
next
  case Accounted
  show ?thesis
  proof (cases "sys_pending (srv_system w)")
    case None
    with Accounted assms have "live_of ds (w\<lparr>srv_system := s\<rparr>) = live_of ds w" by (auto simp: live_of_def)
    then show ?thesis using Accounted by (auto simp: step_deposits_def intro!: exI [of _ "[]"])
  next
    case (Some x)
    obtain q p where x: "x = (q, p)" by fastforce
    from Accounted assms Some x obtain ts where ts: "TrafficStorage_account q p (sys_storage (srv_system w)) = Inr ts"
      and s: "s = (srv_system w)\<lparr>sys_storage := ts, sys_pending := None\<rparr>"
      by (auto split: sum.splits)
    have "live_of ds (w\<lparr>srv_system := s\<rparr>) = (live_of ds w)\<lparr>storage := ts, pending := None\<rparr>"
      by (simp add: live_of_def s)
    with ts Some x have "live_step (live_of ds w) (Account q p) (live_of ds (w\<lparr>srv_system := s\<rparr>))" by simp
    then show ?thesis using Accounted by (auto simp: step_deposits_def run_single [symmetric])
  qed
next
  case (Deposit_due now)
  let ?m = "mApplicationTraffic (sys_storage (srv_system w))"
  from Deposit_due assms obtain ts mem db where d: "deposit (\<lambda>m. insertApplicationTraffic sq now (iterate m))
      (sys_storage (srv_system w)) (sys_memory (srv_system w)) (sys_db (srv_system w)) = Inr (ts, mem, db)"
    and s: "s = (srv_system w)\<lparr>sys_storage := ts, sys_memory := mem, sys_db := db\<rparr>"
    by (auto simp: deposit_in_db_def split: sum.splits)
  then have "deposit log_deposit (sys_storage (srv_system w)) (sys_memory (srv_system w)) ds = Inr (ts, mem, ds @ [?m])"
    by (auto simp: deposit_def Let_def split: sum.splits)
  then have "live_step (live_of ds w) Deposit ((live_of ds w)\<lparr>storage := ts, memory := mem, deposits := ds @ [?m]\<rparr>)"
    by (simp only: live_step_Deposit live_of_simps) blast
  moreover have "(live_of ds w)\<lparr>storage := ts, memory := mem, deposits := ds @ [?m]\<rparr> = live_of (ds @ [?m]) (w\<lparr>srv_system := s\<rparr>)"
    by (simp add: live_of_def s)
  ultimately show ?thesis using Deposit_due by (auto simp: step_deposits_def run_single [symmetric])
qed (use assms in \<open>auto simp: step_deposits_def live_of_def intro!: exI [of _ "[]"]\<close>)

lemma start_stream_numbered: "numbered w \<Longrightarrow> numbered (start_stream fd text w)"
  by (auto simp: numbered_def start_stream_def)

lemma start_stream_connects:
  assumes "numbered w"
  shows "live_step (live_of ds w) (Connect (srv_started w)) (live_of ds (start_stream fd text w))"
proof -
  have "streams (live_of ds w) (srv_started w) = None" using assms by (simp add: numbered_def)
  moreover have "(live_of ds w)\<lparr>streams := (streams (live_of ds w))(srv_started w \<mapsto> Starting)\<rparr> = live_of ds (start_stream fd text w)"
    by (simp add: live_of_def start_stream_def fun_eq_iff)
  ultimately show ?thesis using step_Connect by metis
qed

lemma streams_start:
  assumes "numbered w"
  shows "\<exists>les. live_run (live_of ds w) les (live_of ds (start_threads sent welcomed w))"
  using start_stream_connects [OF assms]
  by (cases "(sent, welcomed, w)" rule: start_threads.cases)
    (auto simp: run_single [symmetric] intro: exI [of _ "[]"])

lemma start_threads_numbered: "numbered w \<Longrightarrow> numbered (start_threads sent welcomed w)"
  by (cases "(sent, welcomed, w)" rule: start_threads.cases) (auto intro: start_stream_numbered)

lemma streams_connection:
  assumes "connection dump iterate sq db day fd received broken welcomed w = Inr w'" "numbered w"
  shows "\<exists>les. live_run (live_of ds w) les (live_of ds w')" "numbered w'"
proof -
  consider "w' = w" | sent where "w' = start_threads sent welcomed (w\<lparr>srv_sent := srv_sent w @ sent\<rparr>)"
    using assms(1) by (auto simp: connection_def split: if_splits sum.splits)
  then have "(\<exists>les. live_run (live_of ds w) les (live_of ds w')) \<and> numbered w'"
  proof cases
    case 1
    with assms(2) show ?thesis by (auto intro: exI [of _ "[]"])
  next
    case (2 sent)
    let ?w = "w\<lparr>srv_sent := srv_sent w @ sent\<rparr>"
    have "numbered ?w" "live_of ds ?w = live_of ds w" using assms(2) by (simp_all add: numbered_def live_of_def)
    with streams_start [of ?w ds sent welcomed] start_threads_numbered [of ?w] 2 show ?thesis by simp
  qed
  then show "\<exists>les. live_run (live_of ds w) les (live_of ds w')" "numbered w'" by blast+
qed

lemma move_client_numbered: "numbered w \<Longrightarrow> srv_clients w a = Some c \<Longrightarrow> numbered (move_client a c pc ts mem w)"
  by (auto simp: numbered_def move_client_def)

lemma live_of_move:
  "live_of ds (move_client a c pc ts mem w) =
     (live_of ds w)\<lparr>storage := ts, memory := mem, streams := (streams (live_of ds w))(a \<mapsto> pc)\<rparr>"
  by (simp add: live_of_def move_client_def fun_eq_iff)

lemma live_of_move_same:
  "live_of ds (move_client a c pc (sys_storage (srv_system w)) mem w) =
     (live_of ds w)\<lparr>memory := mem, streams := (streams (live_of ds w))(a \<mapsto> pc)\<rparr>"
  by (simp add: live_of_def move_client_def fun_eq_iff)

lemma live_of_output [simp]:
  "(live_of ds w)\<lparr>memory := mem, streams := ss, messages := srv_messages w\<rparr> = (live_of ds w)\<lparr>memory := mem, streams := ss\<rparr>"
  "live_of ds (w\<lparr>srv_messages := ms\<rparr>) = (live_of ds w)\<lparr>messages := ms\<rparr>"
  "live_of ds (w\<lparr>srv_sent := sent\<rparr>) = live_of ds w" "live_of ds (w\<lparr>srv_daemon := d\<rparr>) = live_of ds w"
  "numbered (w\<lparr>srv_messages := ms\<rparr>) = numbered w" "numbered (w\<lparr>srv_sent := sent\<rparr>) = numbered w"
  "numbered (w\<lparr>srv_daemon := d\<rparr>) = numbered w" "numbered (w\<lparr>srv_system := s\<rparr>) = numbered w"
  by (simp_all add: live_of_def numbered_def)

text \<open>The ways in which a turn of a stream succeeds.\<close>

lemma stream_turn_cases:
  assumes "stream_turn dump iterate a ok w = Inr w'"
  obtains (idle) "w' = w"
  | (subscribed) c ts mem where "srv_clients w a = Some c" "client_pc c = Starting"
      "awaitSnapshot a a a (sys_storage (srv_system w)) ((sys_memory (srv_system w))(a \<mapsto> new_frame)) = Inr (True, ts, mem)"
      "w' = move_client a c Awaiting ts mem w"
  | (refused) c ts mem where "srv_clients w a = Some c" "client_pc c = Starting"
      "awaitSnapshot a a a (sys_storage (srv_system w)) ((sys_memory (srv_system w))(a \<mapsto> new_frame)) = Inr (False, ts, mem)"
      "w' = (move_client a c Closed ts (mem(a := None)) w)
         \<lparr>srv_messages := srv_messages w @ [(a, Refused)], srv_sent := srv_sent w @ [Closed_fd (client_fd c)]\<rparr>"
  | (woken) c f where "srv_clients w a = Some c" "client_pc c = Awaiting" "sys_memory (srv_system w) a = Some f" "\<not> await_locked f"
      "w' = move_client a c Sending (sys_storage (srv_system w)) ((sys_memory (srv_system w))(a \<mapsto> f\<lparr>await_locked := True\<rparr>)) w"
  | (sent) c f where "ok" "srv_clients w a = Some c" "client_pc c = Sending" "sys_memory (srv_system w) a = Some f"
      "w' = (move_client a c Starting (sys_storage (srv_system w)) ((sys_memory (srv_system w))(a := None)) w)
         \<lparr>srv_messages := srv_messages w @ [(a, Update (trafficMap f) (frame_interval f))]\<rparr>"
  | (gone) c f where "\<not> ok" "srv_clients w a = Some c" "client_pc c = Sending" "sys_memory (srv_system w) a = Some f"
      "w' = (move_client a c Closed (sys_storage (srv_system w)) ((sys_memory (srv_system w))(a := None)) w)
         \<lparr>srv_sent := srv_sent w @ [Closed_fd (client_fd c)]\<rparr>"
proof (cases "srv_clients w a")
  case None
  with assms idle show ?thesis by (simp add: stream_turn_def)
next
  case (Some c)
  note turn = assms [unfolded stream_turn_def Let_def Some option.case]
  show ?thesis
  proof (cases "client_pc c")
    case Starting
    with turn Some subscribed refused idle show ?thesis by (auto split: sum.splits bool.splits if_splits option.splits)
  next
    case Awaiting
    with turn Some idle woken show ?thesis by (auto split: option.splits if_splits)
  next
    case Sending
    with turn Some idle sent gone show ?thesis by (auto split: option.splits sum.splits if_splits)
  next
    case Closed
    with turn idle show ?thesis by simp
  qed
qed

lemma streams_turn:
  assumes "stream_turn dump iterate a ok w = Inr w'" "numbered w"
  shows "\<exists>les. live_run (live_of ds w) les (live_of ds w')" "numbered w'"
proof -
  let ?l = "live_of ds w"
  from assms(1) have "w' = w \<or> (\<exists>e. live_step ?l e (live_of ds w'))"
  proof (cases rule: stream_turn_cases)
    case (subscribed c ts mem)
    then show ?thesis using step_Subscribe [of ?l a ts mem] by (auto simp: live_of_move)
  next
    case (refused c ts mem)
    then show ?thesis using step_Refuse [of ?l a ts mem] by (auto simp: live_of_move)
  next
    case (woken c f)
    then show ?thesis using step_Wake [of ?l a f] by (auto simp: live_of_move_same)
  next
    case (sent c f)
    then show ?thesis using step_Send [of ?l a f True] by (auto simp: live_of_move_same)
  next
    case (gone c f)
    then show ?thesis using step_Send [of ?l a f False] by (auto simp: live_of_move_same)
  qed simp
  then show "\<exists>les. live_run ?l les (live_of ds w')"
    by (auto simp: run_single [symmetric] intro: exI [of _ "[]"])
  from assms(1) show "numbered w'"
    by (cases rule: stream_turn_cases) (use assms(2) in \<open>simp_all add: move_client_numbered\<close>)
qed

text \<open>Every step of the service is a sequence of steps of the streams' system, with the same deposits.\<close>

lemma streams_step:
  assumes "service_step dump iterate sq e w = Inr w'" "numbered w"
  shows "\<exists>les. live_run (live_of ds w) les (live_of (ds @ step_deposits e w) w')" "numbered w'"
proof -
  have "(\<exists>les. live_run (live_of ds w) les (live_of (ds @ step_deposits e w) w')) \<and> numbered w'"
  proof (cases e)
    case (Thread a)
    with assms streams_thread [of iterate sq a w _ ds] show ?thesis by (auto split: sum.splits)
  next
    case (Connection day fd received broken welcomed)
    with assms(1) have "connection dump iterate sq (sys_db (srv_system w)) day fd received broken welcomed w = Inr w'" by simp
    from streams_connection [OF this assms(2)] Connection show ?thesis by (simp add: step_deposits_def)
  next
    case (Connection_amid now seen day fd received broken welcomed)
    with assms(1) have "connection dump iterate sq (amid_deposit iterate sq now seen w) day fd received broken welcomed w = Inr w'" by simp
    from streams_connection [OF this assms(2)] Connection_amid show ?thesis by (simp add: step_deposits_def)
  next
    case (Stream_turn a ok)
    with assms(1) have "stream_turn dump iterate a ok w = Inr w'" by simp
    from streams_turn [OF this assms(2)] Stream_turn show ?thesis by (simp add: step_deposits_def)
  next
    case (Signalled signal)
    with assms show ?thesis by (auto simp: step_deposits_def split: if_splits intro: exI [of _ "[]"])
  next
    case Loop_test
    with assms show ?thesis by (auto simp: step_deposits_def split: if_splits prod.splits intro: exI [of _ "[]"])
  qed
  then show "\<exists>les. live_run (live_of ds w) les (live_of (ds @ step_deposits e w) w')" "numbered w'" by blast+
qed

lemma streams_run:
  assumes "service_run dump iterate sq es w = Inr w'" "numbered w"
  shows "\<exists>les. live_run (live_of ds w) les (live_of (ds @ run_deposits dump iterate sq es w) w')" "numbered w'"
proof -
  have "(\<exists>les. live_run (live_of ds w) les (live_of (ds @ run_deposits dump iterate sq es w) w')) \<and> numbered w'"
    using assms
  proof (induction es arbitrary: w ds)
    case (Cons e es)
    then obtain u where u: "service_step dump iterate sq e w = Inr u" "service_run dump iterate sq es u = Inr w'"
      by (auto split: sum.splits)
    from streams_step [OF u(1) Cons.prems(2)] obtain les where
      "live_run (live_of ds w) les (live_of (ds @ step_deposits e w) u)" "numbered u" by blast
    moreover from Cons.IH [OF u(2) \<open>numbered u\<close>] obtain les' where
      "live_run (live_of (ds @ step_deposits e w) u) les' (live_of ((ds @ step_deposits e w) @ run_deposits dump iterate sq es u) w')"
      "numbered w'" by blast
    ultimately have "live_run (live_of ds w) (les @ les') (live_of (ds @ run_deposits dump iterate sq (e # es) w) w')"
      using u(1) by (auto simp: run_append)
    with \<open>numbered w'\<close> show ?case by blast
  qed (auto intro: exI [of _ "[]"])
  then show "\<exists>les. live_run (live_of ds w) les (live_of (ds @ run_deposits dump iterate sq es w) w')" "numbered w'" by blast+
qed

lemma service_start_cases:
  assumes "service_start env sockets handled db = Inr w"
  obtains p where "main_start env = Inr p" "srv_system w = system_of p db"
    "srv_serving w = startSocketServer sockets (cfg_serverPort (prog_config p))"
    "srv_handled w = (\<lambda>_. True)" "mIsRunning (srv_daemon w)" "numbered w"
    "live_of [] w = live_init (cfg_interval (prog_config p))"
proof -
  from assms obtain p where p: "main_start env = Inr p"
    and w: "w = \<lparr>srv_system = system_of p db, srv_serving = startSocketServer sockets (cfg_serverPort (prog_config p)),
      srv_sent = [], srv_started = 0, srv_clients = Map.empty, srv_messages = [],
      srv_handled = fst (Daemon_new handled), srv_daemon = snd (Daemon_new handled)\<rparr>"
    by (auto simp: service_start_def Let_def split: sum.splits prod.splits)
  have "fst (Daemon_new handled) sig" for sig by (cases sig) (simp_all add: Daemon_new_def)
  then have "fst (Daemon_new handled) = (\<lambda>_. True)" by (simp add: fun_eq_iff)
  moreover have "snd (Daemon_new handled) = Daemon_init" by (simp add: Daemon_new_def)
  moreover have "prog_storage p = TrafficStorage_new (cfg_interval (prog_config p))"
    using p by (auto elim: main_start_cases)
  ultimately show ?thesis
    using p by (intro that [of p]) (simp_all add: w Daemon_init_def numbered_def live_of_def live_init_def system_of_def)
qed

section \<open>The history of the service\<close>

text \<open>What a run credits to an application, and that none of its deposits loses anything.\<close>

definition step_credit :: "thread_step \<Rightarrow> 'db service \<Rightarrow> string \<Rightarrow> TrafficLine" where
  "step_credit e w name = (case e of Thread a \<Rightarrow> credit a (srv_system w) name | _ \<Rightarrow> 0)"

fun run_credits ::
  "(json \<Rightarrow> string option) \<Rightarrow> (TrafficMap \<Rightarrow> (string \<times> TrafficLine) list) \<Rightarrow> 'db sqlite \<Rightarrow> thread_step list \<Rightarrow> 'db service \<Rightarrow> string \<Rightarrow> TrafficLine" where
  "run_credits dump iterate sq [] w name = 0"
| "run_credits dump iterate sq (e # es) w name =
     step_credit e w name + (case service_step dump iterate sq e w of Inl _ \<Rightarrow> 0 | Inr w' \<Rightarrow> run_credits dump iterate sq es w' name)"

definition step_fits :: "string set \<Rightarrow> int \<Rightarrow> thread_step \<Rightarrow> 'db service \<Rightarrow> bool" where
  "step_fits names latest e w = (case e of Thread a \<Rightarrow> action_fits names latest a (srv_system w) | _ \<Rightarrow> True)"

definition latest_step :: "thread_step \<Rightarrow> int \<Rightarrow> int" where
  "latest_step e latest = (case e of Thread a \<Rightarrow> latest_after a latest | _ \<Rightarrow> latest)"

fun run_fits ::
  "(json \<Rightarrow> string option) \<Rightarrow> (TrafficMap \<Rightarrow> (string \<times> TrafficLine) list) \<Rightarrow> 'db sqlite \<Rightarrow> string set \<Rightarrow> int \<Rightarrow> thread_step list \<Rightarrow> 'db service \<Rightarrow> bool" where
  "run_fits dump iterate sq names latest [] w = True"
| "run_fits dump iterate sq names latest (e # es) w =
     (step_fits names latest e w \<and>
      (case service_step dump iterate sq e w of Inl _ \<Rightarrow> True | Inr w' \<Rightarrow> run_fits dump iterate sq names (latest_step e latest) es w'))"

text \<open>Connections, streams and signals leave the sniffer, the traffic and the database alone.\<close>

definition same_traffic :: "'db service \<Rightarrow> 'db service \<Rightarrow> bool" where
  "same_traffic w w' \<longleftrightarrow> sys_sniffer (srv_system w') = sys_sniffer (srv_system w) \<and> sys_db (srv_system w') = sys_db (srv_system w) \<and>
     sys_pending (srv_system w') = sys_pending (srv_system w) \<and>
     mApplicationTraffic (sys_storage (srv_system w')) = mApplicationTraffic (sys_storage (srv_system w))"

lemma same_traffic_threads: "same_traffic w (start_threads sent welcomed (w\<lparr>srv_sent := acts'\<rparr>))"
  by (cases "(sent, welcomed, w\<lparr>srv_sent := acts'\<rparr>)" rule: start_threads.cases)
    (simp_all add: same_traffic_def start_stream_def)

lemma same_traffic_turn:
  assumes "stream_turn dump iterate a ok w = Inr w'"
  shows "same_traffic w w'"
  using assms by (cases rule: stream_turn_cases) (auto simp: same_traffic_def move_client_def dest: await_frame)

lemma same_traffic_connection:
  assumes "connection dump iterate sq db day fd received broken welcomed w = Inr w'"
  shows "same_traffic w w'"
proof -
  from assms consider "w' = w" | sent acts' where "w' = start_threads sent welcomed (w\<lparr>srv_sent := acts'\<rparr>)"
    by (auto simp: connection_def split: if_splits sum.splits)
  then show ?thesis using same_traffic_threads by cases (simp_all add: same_traffic_def)
qed

lemma same_traffic_step:
  assumes "service_step dump iterate sq e w = Inr w'" "\<And>a. e \<noteq> Thread a"
  shows "same_traffic w w'"
proof (cases e)
  case (Connection day fd received broken welcomed)
  with assms(1) show ?thesis by (simp add: same_traffic_connection)
next
  case (Connection_amid now seen day fd received broken welcomed)
  with assms(1) show ?thesis by (simp add: same_traffic_connection)
next
  case (Stream_turn a ok)
  with assms(1) show ?thesis by (simp add: same_traffic_turn)
qed (use assms in \<open>auto simp: same_traffic_def split: if_splits prod.splits\<close>)

lemma step_history:
  assumes it: "iterates iterate" and db: "sqlite_ok sq idle tables" and names: "good_names names"
    and ok: "sys_ok idle tables names t latest (srv_system w)" and step: "service_step dump iterate sq e w = Inr w'"
    and fits: "step_fits names latest e w" and t: "- (2 ^ 31) \<le> t" "t \<le> latest + 1" "latest < 2 ^ 31"
  shows "sys_ok idle tables names t (latest_step e latest) (srv_system w')"
    and "history tables t (srv_system w') name = history tables t (srv_system w) name + step_credit e w name"
    and "t \<le> latest_step e latest + 1" "latest_step e latest < 2 ^ 31"
proof -
  have "sys_ok idle tables names t (latest_step e latest) (srv_system w') \<and>
    history tables t (srv_system w') name = history tables t (srv_system w) name + step_credit e w name \<and>
    t \<le> latest_step e latest + 1 \<and> latest_step e latest < 2 ^ 31"
  proof (cases "\<exists>a. e = Thread a")
    case True
    then obtain a where e: "e = Thread a" by blast
    with step have a: "act iterate sq a (srv_system w) = Inr (srv_system w')" by (auto split: sum.splits)
    from e fits have "action_fits names latest a (srv_system w)" by (simp add: step_fits_def)
    with act_history [OF it db names ok a _ t] e show ?thesis by (simp add: latest_step_def step_credit_def)
  next
    case False
    then have "same_traffic w w'" using same_traffic_step [OF step] by blast
    moreover have "latest_step e latest = latest" "step_credit e w name = 0"
      using False by (cases e; simp add: latest_step_def step_credit_def)+
    ultimately show ?thesis using ok t by (simp add: same_traffic_def sys_ok_def history_def in_hand_def)
  qed
  then show "sys_ok idle tables names t (latest_step e latest) (srv_system w')"
    "history tables t (srv_system w') name = history tables t (srv_system w) name + step_credit e w name"
    "t \<le> latest_step e latest + 1" "latest_step e latest < 2 ^ 31"
    by blast+
qed

lemma run_history:
  assumes it: "iterates iterate" and db: "sqlite_ok sq idle tables" and names: "good_names names"
    and "sys_ok idle tables names t latest (srv_system w)" "service_run dump iterate sq es w = Inr w'"
    and "run_fits dump iterate sq names latest es w" "- (2 ^ 31) \<le> t" "t \<le> latest + 1" "latest < 2 ^ 31"
  shows "(\<exists>latest'. latest' < 2 ^ 31 \<and> sys_ok idle tables names t latest' (srv_system w')) \<and>
    history tables t (srv_system w') name = history tables t (srv_system w) name + run_credits dump iterate sq es w name"
  using assms(4-9)
proof (induction es arbitrary: w latest)
  case (Cons e es)
  from Cons.prems(2) obtain u where u: "service_step dump iterate sq e w = Inr u" "service_run dump iterate sq es u = Inr w'"
    by (auto split: sum.splits)
  with Cons.prems(3) have fit: "step_fits names latest e w" "run_fits dump iterate sq names (latest_step e latest) es u" by simp_all
  note step = step_history [OF it db names Cons.prems(1) u(1) fit(1) Cons.prems(4-6)]
  from Cons.IH [OF step(1) u(2) fit(2) Cons.prems(4) step(3,4)] step(2) [of name] u(1) show ?case by (simp add: add.assoc)
qed auto

text \<open>Whatever the database does, the deposits and the storage hold what was credited.\<close>

definition empty_tables :: "'db \<Rightarrow> tables" where
  "empty_tables db = Map.empty"

abbreviation capture_ok :: "'db system \<Rightarrow> bool" where
  "capture_ok s \<equiv> sys_ok (\<lambda>_. True) empty_tables {} 0 0 s"

lemma capture_ok_iff: "capture_ok s \<longleftrightarrow> sniffer_ok (sys_sniffer s) \<and> finite (dom (mApplicationTraffic (sys_storage s)))"
  by (simp add: sys_ok_def tables_ok_def empty_tables_def)

lemma history_empty: "history empty_tables t s name = line_of (mApplicationTraffic (sys_storage s)) name + in_hand s name"
  by (simp add: history_def kept_line_def empty_tables_def)

definition held :: "'db service \<Rightarrow> string \<Rightarrow> TrafficLine" where
  "held w name = line_of (mApplicationTraffic (sys_storage (srv_system w))) name + in_hand (srv_system w) name"

lemma held_history: "held w name = history empty_tables 0 (srv_system w) name"
  by (simp add: held_def history_empty)

lemma conserved_step:
  assumes "service_step dump iterate sq e w = Inr w'" "capture_ok (srv_system w)"
  shows "capture_ok (srv_system w')"
    and "sum_list (map (\<lambda>m. line_of m name) (step_deposits e w)) + held w' name = held w name + step_credit e w name"
proof -
  have "capture_ok (srv_system w') \<and>
    sum_list (map (\<lambda>m. line_of m name) (step_deposits e w)) + held w' name = held w name + step_credit e w name"
  proof (cases "\<exists>a. e = Thread a")
    case True
    then obtain a where e: "e = Thread a" by blast
    with assms(1) have a: "act iterate sq a (srv_system w) = Inr (srv_system w')" by (auto split: sum.splits)
    show ?thesis
    proof (cases a)
      case (Captured env hdr raw)
      with captured_history [OF assms(2) a [unfolded Captured]] e show ?thesis
        by (simp add: held_history step_deposits_def step_credit_def)
    next
      case Accounted
      with accounted_history [OF assms(2) a [unfolded Accounted]] e show ?thesis
        by (simp add: held_history step_deposits_def step_credit_def)
    next
      case (Deposit_due now)
      with act_deposit(1-3) [OF a [unfolded Deposit_due]] assms(2) e show ?thesis
        by (simp add: capture_ok_iff step_deposits_def step_credit_def held_def in_hand_def)
    qed (use a [symmetric] assms(2) e in \<open>auto simp: capture_ok_iff step_deposits_def step_credit_def sniffer_ok_forget held_def in_hand_def\<close>)
  next
    case False
    then have "same_traffic w w'" using same_traffic_step [OF assms(1)] by blast
    moreover have "step_deposits e w = []" "step_credit e w name = 0"
      using False by (cases e; simp add: step_deposits_def step_credit_def)+
    ultimately show ?thesis using assms(2) by (simp add: same_traffic_def capture_ok_iff held_def in_hand_def)
  qed
  then show "capture_ok (srv_system w')"
    "sum_list (map (\<lambda>m. line_of m name) (step_deposits e w)) + held w' name = held w name + step_credit e w name"
    by blast+
qed

lemma conserved_run:
  assumes "service_run dump iterate sq es w = Inr w'" "capture_ok (srv_system w)"
  shows "sum_list (map (\<lambda>m. line_of m name) (run_deposits dump iterate sq es w)) + held w' name =
    held w name + run_credits dump iterate sq es w name"
  using assms
proof (induction es arbitrary: w)
  case (Cons e es)
  then obtain u where u: "service_step dump iterate sq e w = Inr u" "service_run dump iterate sq es u = Inr w'"
    by (auto split: sum.splits)
  from Cons.IH [OF u(2) conserved_step(1) [OF u(1) Cons.prems(2)]] conserved_step(2) [OF u(1) Cons.prems(2), of name] u(1)
  show ?case by (simp add: add.assoc) (simp add: add.assoc [symmetric])
qed simp

section \<open>What ends the service\<close>

text \<open>
  Why a step can end the process: a frame that is read beyond what was captured, an exception of the
  scan of \<open>/proc\<close> or its absence; a packet whose line a deposit has erased since its reference was taken; a
  request that leaves the server's buffers, a reply with a name that is not valid UTF-8, or an error sent on a
  broken connection; in a text stream a line that is too long for its buffer; in a JSON stream a name that is
  not valid UTF-8, or its refusal on a broken connection; and the test of the main loop.
\<close>

fun stop_reason ::
  "(TrafficMap \<Rightarrow> (string \<times> TrafficLine) list) \<Rightarrow> 'db sqlite \<Rightarrow> thread_step \<Rightarrow> 'db service \<Rightarrow> service_end \<Rightarrow> bool" where
  "stop_reason iterate sq (Thread (Captured env hdr raw)) w r \<longleftrightarrow>
     (\<exists>a. r = Ended (Aborted a) \<and>
       (Packet_new hdr raw (mIPList (sys_sniffer (srv_system w))) = None \<and> a = Undefined \<or> proc_abort env a))"
| "stop_reason iterate sq (Thread Accounted) w r \<longleftrightarrow> r = Ended (Aborted Undefined) \<and>
     (\<exists>q p. sys_pending (srv_system w) = Some (q, p) \<and> mApplicationTraffic (sys_storage (srv_system w)) (comm q) = None)"
| "stop_reason iterate sq (Connection day fd received broken welcomed) w r \<longleftrightarrow> srv_serving w \<and>
     (\<exists>x. r = Ended x \<and>
       turn_end (Accepted (api_of iterate sq day (sys_storage (srv_system w)) (sys_db (srv_system w))) fd received broken) x)"
| "stop_reason iterate sq (Connection_amid now seen day fd received broken welcomed) w r \<longleftrightarrow> srv_serving w \<and>
     (\<exists>x. r = Ended x \<and>
       turn_end (Accepted (api_of iterate sq day (sys_storage (srv_system w)) (amid_deposit iterate sq now seen w)) fd received broken) x)"
| "stop_reason iterate sq (Stream_turn a ok) w r \<longleftrightarrow> (\<exists>c. srv_clients w a = Some c \<and>
     (if client_pc c = Starting
      then r = Ended Sigpipe \<and> \<not> client_text c \<and> \<not> ok \<and> mAPIWaiting (sys_storage (srv_system w))
      else client_pc c = Sending \<and> (\<exists>f. sys_memory (srv_system w) a = Some f \<and>
        (if client_text c then r = Ended (Aborted Undefined) \<and> (\<exists>l\<in>ran (trafficMap f). \<not> small_line l)
         else r = Ended (Aborted Json_error) \<and> (\<exists>name\<in>dom (trafficMap f). \<not> utf8 name)))))"
| "stop_reason iterate sq Loop_test w r \<longleftrightarrow> r = Finished \<and> \<not> mIsRunning (srv_daemon w)"
| "stop_reason iterate sq _ w r \<longleftrightarrow> False"

definition service_ok :: "'db service \<Rightarrow> bool" where
  "service_ok w \<longleftrightarrow> (\<exists>ds. live_ok (live_of ds w) \<and> finite_maps (live_of ds w)) \<and> (\<forall>sig. srv_handled w sig)"

lemma captured_stops:
  assumes "pktCallback_fetch env hdr raw (sn, ts) = Inl a"
  shows "Packet_new hdr raw (mIPList sn) = None \<and> a = Undefined \<or> proc_abort env a"
  using assms
  by (auto simp: pktCallback_fetch_def ProcessResolver_resolve_def Let_def dest: ProcessIndex_get_abort
      split: option.splits if_splits sum.splits prod.splits)

lemma deposit_goes_on:
  assumes "live_ok (live_of ds w)"
  shows "\<exists>s. act iterate sq (Deposit_due now) (srv_system w) = Inr s"
proof -
  have "hook_ok (live_of ds w)" using assms by (simp add: live_ok_def)
  then obtain r where "deposit log_deposit (sys_storage (srv_system w)) (sys_memory (srv_system w)) ds = Inr r"
    using deposit_hook_ok [of "live_of ds w"] by auto
  then show ?thesis by (auto simp: deposit_in_db_def deposit_def Let_def split: sum.splits)
qed

lemma connection_stops:
  assumes "strict_dump dump" "connection dump iterate sq db day fd received broken welcomed w = Inl r"
  shows "srv_serving w \<and> (\<exists>x. r = Ended x \<and> turn_end (Accepted (api_of iterate sq day (sys_storage (srv_system w)) db) fd received broken) x)"
proof -
  let ?e = "Accepted (api_of iterate sq day (sys_storage (srv_system w)) db) fd received broken"
  from assms(2) obtain x where "srv_serving w" "server_turn dump ?e = Inl x" "r = Ended x"
    by (auto simp: connection_def simp del: server_turn.simps split: if_splits sum.splits)
  with server_turn_cases [OF assms(1), of ?e] show ?thesis by (auto simp del: server_turn.simps)
qed

lemma refusal_sent:
  assumes "strict_dump dump"
  obtains payload where "stream_payload dump iterate text Refused = Some (Inr payload)"
proof -
  let ?j = "error_json ''Only one live API stream at a time is currently supported.''"
  have "json_utf8 ?j" by (rule json_utf8_error) simp
  then have "dump ?j \<noteq> None" using assms by (simp add: strict_dump_def)
  then show thesis using that
    by (cases "text") (auto simp: stream_payload_def live_text_payload_def live_payload_def)
qed

lemma payload_stops:
  assumes "strict_dump dump" "iterates iterate" "finite (dom t)" "stream_payload dump iterate text (Update t (Some i)) = Some (Inl e)"
  shows "if text then e = Undefined \<and> (\<exists>l\<in>ran t. \<not> small_line l) else e = Json_error \<and> (\<exists>name\<in>dom t. \<not> utf8 name)"
proof -
  have entry: "t (fst x) = Some (snd x)" if "x \<in> set (iterate t)" for x
    using assms(2,3) that by (metis iterates_def map_of_eq_Some_iff prod.collapse)
  show ?thesis
  proof (cases "text")
    case True
    with assms(4) have "text_lines (iterate t) i (''Application Traffic:'' @ [CHR 0x0A]) = Some (Inl e)"
      by (auto simp: stream_payload_def live_text_payload_def split: option.splits sum.splits)
    from text_lines_abort [OF this] obtain x where "e = Undefined" "x \<in> set (iterate t)" "\<not> small_line (snd x)" by blast
    with True entry [of x] ranI [of t "fst x" "snd x"] show ?thesis by auto
  next
    case False
    let ?j = "success_json (json_set ''interval'' (JNumber (sint i)) (trafficToJson (iterate t)))"
    from False assms(4) have "e = Json_error" "dump ?j = None"
      by (auto simp: stream_payload_def live_payload_def split: option.splits)
    then have "\<not> json_utf8 ?j" using assms(1) by (simp add: strict_dump_def)
    then have "\<exists>x\<in>set (iterate t). \<not> utf8 (fst x)" using json_utf8_interval by blast
    with False entry \<open>e = Json_error\<close> show ?thesis by auto
  qed
qed

lemma turn_stops:
  assumes dump: "strict_dump dump" and it: "iterates iterate" and ok: "live_ok (live_of ds w)" "finite_maps (live_of ds w)"
    and stop: "stream_turn dump iterate a ok' w = Inl r"
  shows "stop_reason iterate sq (Stream_turn a ok') w r"
proof -
  let ?l = "live_of ds w"
  have stream: "stream_ok ?l a" using ok(1) by (simp add: live_ok_def)
  have "srv_clients w a \<noteq> None" using stop by (intro notI) (simp add: stream_turn_def)
  then obtain c where c: "srv_clients w a = Some c" by blast
  note turn = stop [unfolded stream_turn_def Let_def c option.case]
  show ?thesis
  proof (cases "client_pc c")
    case Starting
    obtain payload where "stream_payload dump iterate (client_text c) Refused = Some (Inr payload)"
      using refusal_sent [OF dump] .
    with turn c Starting show ?thesis
      by (auto simp: awaitSnapshot_def new_frame_def Let_def split: if_splits)
  next
    case Awaiting
    with stream c have "sys_memory (srv_system w) a \<noteq> None" by (auto simp: stream_ok_def split: option.splits)
    with turn Awaiting show ?thesis by (auto split: if_splits)
  next
    case Sending
    with stream c obtain f where f: "sys_memory (srv_system w) a = Some f" "delivered ?l f"
      by (auto simp: stream_ok_def split: option.splits)
    then obtain i where i: "frame_interval f = Some i" "finite (dom (trafficMap f))"
      using ok(2) by (auto simp: delivered_def finite_maps_def)
    from turn Sending f(1) obtain e where "stream_payload dump iterate (client_text c) (Update (trafficMap f) (Some i)) = Some (Inl e)"
      "r = Ended (Aborted e)"
      by (auto simp: i(1) split: option.splits sum.splits if_splits)
    with payload_stops [OF dump it i(2) this(1)] c f(1) Sending show ?thesis by (auto split: if_splits)
  next
    case Closed
    with turn show ?thesis by simp
  qed
qed

lemma step_stops:
  assumes dump: "strict_dump dump" and it: "iterates iterate" and ok: "service_ok w" and stop: "service_step dump iterate sq e w = Inl r"
  shows "stop_reason iterate sq e w r"
proof -
  from ok obtain ds where ds: "live_ok (live_of ds w)" "finite_maps (live_of ds w)" and handled: "\<And>sig. srv_handled w sig"
    by (auto simp: service_ok_def)
  show ?thesis
  proof (cases e)
    case (Thread a)
    show ?thesis
    proof (cases a)
      case (Captured env hdr raw)
      with stop Thread show ?thesis by (auto dest: captured_stops split: sum.splits if_splits)
    next
      case Accounted
      with stop Thread show ?thesis by (auto simp: account_cases split: option.splits if_splits)
    next
      case (Deposit_due now)
      with stop Thread deposit_goes_on [OF ds(1), of iterate sq now] show ?thesis by auto
    qed (use stop Thread in simp_all)
  next
    case (Connection day fd received broken welcomed)
    with stop connection_stops [OF dump] show ?thesis by simp
  next
    case (Connection_amid now seen day fd received broken welcomed)
    with stop connection_stops [OF dump] show ?thesis by simp
  next
    case (Stream_turn a ok')
    with stop turn_stops [OF dump it ds] show ?thesis by simp
  next
    case (Signalled sig)
    with stop handled show ?thesis by simp
  next
    case Loop_test
    with stop have "sys_pending (srv_system w) = None" by (cases "sys_pending (srv_system w)") auto
    then have "service_step dump iterate sq e w = (if mIsRunning (srv_daemon w) then Inr (w\<lparr>srv_daemon := snd (running (srv_daemon w))\<rparr>) else Inl Finished)"
      by (cases "running (srv_daemon w)") (use running_simps(1) [of "srv_daemon w"] Loop_test in auto)
    with stop Loop_test show ?thesis by (auto split: if_splits)
  qed
qed

lemma run_stops:
  assumes "service_run dump iterate sq es w0 = Inl r"
  shows "\<exists>es1 e es2 w. es = es1 @ e # es2 \<and> service_run dump iterate sq es1 w0 = Inr w \<and> service_step dump iterate sq e w = Inl r"
  using assms
proof (induction es arbitrary: w0)
  case (Cons e es)
  show ?case
  proof (cases "service_step dump iterate sq e w0")
    case (Inl r')
    with Cons.prems show ?thesis by (intro exI [of _ "[]"] exI [of _ e] exI [of _ es] exI [of _ w0]) simp
  next
    case (Inr u)
    with Cons.prems Cons.IH [of u] obtain es1 e' es2 w where "es = es1 @ e' # es2" "service_run dump iterate sq es1 u = Inr w"
      "service_step dump iterate sq e' w = Inl r" by auto
    with Inr show ?thesis by (intro exI [of _ "e # es1"] exI [of _ e'] exI [of _ es2] exI [of _ w]) simp
  qed
qed simp

lemma handled_connection:
  assumes "connection dump iterate sq db day fd received broken welcomed w = Inr w'"
  shows "srv_handled w' = srv_handled w"
proof -
  have "srv_handled (start_threads sent welcomed v) = srv_handled v" for sent and v :: "'a service"
    by (cases "(sent, welcomed, v)" rule: start_threads.cases) (simp_all add: start_stream_def)
  with assms show ?thesis by (auto simp: connection_def split: if_splits sum.splits)
qed

lemma handled_step:
  assumes "service_step dump iterate sq e w = Inr w'"
  shows "srv_handled w' = srv_handled w"
proof (cases e)
  case (Connection day fd received broken welcomed)
  with assms show ?thesis by (simp add: handled_connection)
next
  case (Connection_amid now seen day fd received broken welcomed)
  with assms show ?thesis by (simp add: handled_connection)
next
  case (Stream_turn a ok)
  with assms have "stream_turn dump iterate a ok w = Inr w'" by simp
  then show ?thesis by (cases rule: stream_turn_cases) (simp_all add: move_client_def)
qed (use assms in \<open>auto split: sum.splits if_splits prod.splits\<close>)

lemma handled_run: "service_run dump iterate sq es w = Inr w' \<Longrightarrow> srv_handled w' = srv_handled w"
  by (induction es arbitrary: w) (auto simp: handled_step split: sum.splits)

lemma service_streams_run:
  assumes "service_start env sockets handled db = Inr w0" "service_run dump iterate sq es w0 = Inr w"
  shows "\<exists>p les. main_start env = Inr p \<and>
    live_run (live_init (cfg_interval (prog_config p))) les (live_of (run_deposits dump iterate sq es w0) w)"
proof -
  from assms(1) obtain p where p: "main_start env = Inr p" "numbered w0" "live_of [] w0 = live_init (cfg_interval (prog_config p))"
    by (rule service_start_cases)
  with streams_run(1) [OF assms(2) p(2), of "[]"] show ?thesis by auto
qed

lemma service_ok_run:
  assumes "service_start env sockets handled db = Inr w0" "service_run dump iterate sq es w0 = Inr w"
  shows "service_ok w"
proof -
  from service_streams_run [OF assms] obtain p :: program and les where
    "live_run (live_init (cfg_interval (prog_config p))) les (live_of (run_deposits dump iterate sq es w0) w)" by blast
  moreover have "srv_handled w0 = (\<lambda>_. True)" using assms(1) by (rule service_start_cases)
  then have "srv_handled w sig" for sig using handled_run [OF assms(2)] by simp
  ultimately show ?thesis unfolding service_ok_def using live_ok_reachable finite_maps_run by blast
qed

section \<open>Answers\<close>

lemma connection_reply:
  assumes "strict_dump dump" "srv_serving w" "json_get ''result'' j = JText ''success''" "json_utf8 j"
    and "handle_request (api_of iterate sq day (sys_storage (srv_system w)) db) received = Inr (Reply j)"
  shows "connection dump iterate sq db day fd received broken welcomed w = Inr (w\<lparr>srv_sent := srv_sent w @ [Sent fd j, Closed_fd fd]\<rparr>)"
  proof -
  have "dump j \<noteq> None" using assms(1,4) by (simp add: strict_dump_def)
  with assms show ?thesis by (auto simp: connection_def send_json_def is_error_def)
qed

text \<open>A reply has a line for an application, or none when there is no traffic.\<close>

definition shows_line :: "json \<Rightarrow> string \<Rightarrow> TrafficLine \<Rightarrow> bool" where
  "shows_line reply name line \<longleftrightarrow> json_get name (json_get ''data'' reply) = line_json line \<or>
     json_get name (json_get ''data'' reply) = JNull \<and> line = 0"

lemma snapshot_shows:
  assumes "iterates iterate" "finite (dom (mApplicationTraffic ts))"
  shows "json_get ''result'' (snapshot (api_of iterate sq day ts db)) = JText ''success''"
    and "shows_line (snapshot (api_of iterate sq day ts db)) name (line_of (mApplicationTraffic ts) name)"
    and "dom (mApplicationTraffic ts) \<subseteq> Collect utf8 \<Longrightarrow> json_utf8 (snapshot (api_of iterate sq day ts db))"
proof -
  let ?m = "mApplicationTraffic ts"
  have m: "distinct (map fst (iterate ?m))" "map_of (iterate ?m) = ?m" using assms by (simp_all add: iterates_def)
  then show "json_get ''result'' (snapshot (api_of iterate sq day ts db)) = JText ''success''"
    "shows_line (snapshot (api_of iterate sq day ts db)) name (line_of ?m name)"
    using snapshot_reply(1) [of "api_of iterate sq day ts db"] snapshot_reply(2) [of "api_of iterate sq day ts db" name]
    by (auto simp: api_of_def getLiveSnapshot_def shows_line_def line_of_def split: option.splits)
  assume "dom ?m \<subseteq> Collect utf8"
  moreover have "?m (fst x) = Some (snd x)" if "x \<in> set (iterate ?m)" for x
    using m that by (metis map_of_eq_Some_iff prod.collapse)
  ultimately have "\<forall>x\<in>set (iterate ?m). utf8 (fst x)" by blast
  then show "json_utf8 (snapshot (api_of iterate sq day ts db))"
    by (simp add: snapshot_def api_of_def getLiveSnapshot_def json_utf8_interval)
qed

end
