(* ===== verification/Descriptors.thy ===== *)
theory Descriptors
  imports Service
begin

text \<open>
  The descriptors of the connections the server accepts: each is closed once, by its reply or by its
  stream, or still used by its stream; or it was left open by a text stream without a welcome.
\<close>

section \<open>Accounts of a descriptor\<close>

text \<open>An accepted connection appears as its reply or as its thread.\<close>

fun opened :: "server_action \<Rightarrow> nat list" where
  "opened (Sent fd j) = [fd]"
| "opened (Live_thread fd) = [fd]"
| "opened (Live_text_thread fd) = [fd]"
| "opened (Closed_fd fd) = []"

fun closed_by :: "server_action \<Rightarrow> nat list" where
  "closed_by (Closed_fd fd) = [fd]"
| "closed_by _ = []"

definition times_opened :: "'db service \<Rightarrow> nat \<Rightarrow> nat" where
  "times_opened w fd = count_list (concat (map opened (srv_sent w))) fd"

definition times_closed :: "'db service \<Rightarrow> nat \<Rightarrow> nat" where
  "times_closed w fd = count_list (concat (map closed_by (srv_sent w))) fd"

definition stream_numbers :: "'db service \<Rightarrow> nat \<Rightarrow> nat set" where
  "stream_numbers w fd = {a. \<exists>c. srv_clients w a = Some c \<and> client_fd c = fd \<and> client_pc c \<noteq> Closed}"

definition streams_on :: "'db service \<Rightarrow> nat \<Rightarrow> nat" where
  "streams_on w fd = card (stream_numbers w fd)"

text \<open>A text stream whose welcome cannot be sent ends without closing its descriptor.\<close>

definition step_leaks ::
  "(json \<Rightarrow> string option) \<Rightarrow> (TrafficMap \<Rightarrow> (string \<times> TrafficLine) list) \<Rightarrow> 'db sqlite \<Rightarrow> thread_step \<Rightarrow> 'db service \<Rightarrow> nat \<Rightarrow> nat" where
  "step_leaks dump iterate sq e w fd =
     (case e of
        Connection day fd' received broken welcomed \<Rightarrow>
          if srv_serving w \<and> \<not> welcomed \<and> fd' = fd \<and>
             handle_request (api_of iterate sq day (sys_storage (srv_system w)) (sys_db (srv_system w))) received = Inr Start_live_text
          then 1 else 0
      | Connection_amid now seen day fd' received broken welcomed \<Rightarrow>
          if srv_serving w \<and> \<not> welcomed \<and> fd' = fd \<and>
             handle_request (api_of iterate sq day (sys_storage (srv_system w)) (amid_deposit iterate sq now seen w)) received = Inr Start_live_text
          then 1 else 0
      | _ \<Rightarrow> 0)"

fun run_leaks ::
  "(json \<Rightarrow> string option) \<Rightarrow> (TrafficMap \<Rightarrow> (string \<times> TrafficLine) list) \<Rightarrow> 'db sqlite \<Rightarrow> thread_step list \<Rightarrow> 'db service \<Rightarrow> nat \<Rightarrow> nat" where
  "run_leaks dump iterate sq [] w fd = 0"
| "run_leaks dump iterate sq (e # es) w fd =
     step_leaks dump iterate sq e w fd + (case service_step dump iterate sq e w of Inl _ \<Rightarrow> 0 | Inr w' \<Rightarrow> run_leaks dump iterate sq es w' fd)"

text \<open>What a descriptor has open: it was accepted, and neither closed nor is it used by a stream.\<close>

definition balanced :: "nat \<Rightarrow> 'db service \<Rightarrow> nat \<Rightarrow> bool" where
  "balanced leaks w fd \<longleftrightarrow> times_opened w fd = times_closed w fd + streams_on w fd + leaks"

lemma streams_frame [simp]:
  "streams_on (w\<lparr>srv_sent := acts'\<rparr>) fd = streams_on w fd" "streams_on (w\<lparr>srv_messages := ms\<rparr>) fd = streams_on w fd"
  "streams_on (w\<lparr>srv_system := s\<rparr>) fd = streams_on w fd" "streams_on (w\<lparr>srv_daemon := d\<rparr>) fd = streams_on w fd"
  by (simp_all add: streams_on_def stream_numbers_def)

lemma sent_frame [simp]:
  "srv_sent (move_client a c pc ts mem w) = srv_sent w" "srv_sent (start_stream fd text w) = srv_sent w"
  by (simp_all add: move_client_def start_stream_def)

lemmas balance_defs = balanced_def times_opened_def times_closed_def

section \<open>Streams that start and end\<close>

lemma finite_streams: "numbered w \<Longrightarrow> finite (stream_numbers w fd)"
  by (rule finite_subset [of _ "{..<srv_started w}"]) (auto simp: stream_numbers_def numbered_def not_less [symmetric])

lemma streams_on_start:
  assumes "numbered w"
  shows "streams_on (start_stream fd text w) fd' = streams_on w fd' + (if fd = fd' then 1 else 0)"
proof -
  have free: "srv_clients w (srv_started w) = None" using assms by (simp add: numbered_def)
  then have "stream_numbers (start_stream fd text w) fd' =
      (if fd = fd' then insert (srv_started w) (stream_numbers w fd') else stream_numbers w fd')"
    by (auto simp: stream_numbers_def start_stream_def)
  moreover have "srv_started w \<notin> stream_numbers w fd'" using free by (simp add: stream_numbers_def)
  ultimately show ?thesis using finite_streams [OF assms, of fd'] by (simp add: streams_on_def)
qed

lemma streams_on_move:
  assumes "numbered w" "srv_clients w a = Some c" "client_pc c \<noteq> Closed"
  shows "streams_on w fd = streams_on (move_client a c pc ts mem w) fd + (if pc = Closed \<and> client_fd c = fd then 1 else 0)"
proof -
  have "stream_numbers (move_client a c pc ts mem w) fd =
      (if pc = Closed then stream_numbers w fd - {a} else stream_numbers w fd)"
    using assms(2,3) by (auto simp: stream_numbers_def move_client_def)
  moreover have "a \<in> stream_numbers w fd \<longleftrightarrow> client_fd c = fd"
    using assms(2,3) by (auto simp: stream_numbers_def)
  ultimately show ?thesis
    using finite_streams [OF assms(1), of fd] card_Suc_Diff1 [of "stream_numbers w fd" a] by (simp add: streams_on_def)
qed

section \<open>Every step keeps the balance\<close>

lemma balanced_turn:
  assumes "stream_turn dump iterate a ok w = Inr w'" "numbered w" "balanced n w fd"
  shows "balanced n w' fd"
proof -
  have move: "streams_on (move_client a c pc ts mem w) fd + (if pc = Closed \<and> client_fd c = fd then 1 else 0) = streams_on w fd"
    if "srv_clients w a = Some c" "client_pc c \<noteq> Closed" for c pc ts mem
    using streams_on_move [OF assms(2) that] by simp
  from assms(1) show ?thesis
  proof (cases rule: stream_turn_cases)
    case (subscribed c ts mem)
    with assms(3) move [of c Awaiting ts mem] show ?thesis by (simp add: balance_defs)
  next
    case (refused c ts mem)
    with assms(3) move [of c Closed ts "mem(a := None)"] show ?thesis
      by (cases "client_fd c = fd") (simp_all add: balance_defs)
  next
    case (woken c f)
    with assms(3) move [of c Sending] show ?thesis by (simp add: balance_defs)
  next
    case (sent c f)
    with assms(3) move [of c Starting] show ?thesis by (simp add: balance_defs)
  next
    case (gone c f)
    with assms(3) move [of c Closed "sys_storage (srv_system w)" "(sys_memory (srv_system w))(a := None)"] show ?thesis
      by (cases "client_fd c = fd") (simp_all add: balance_defs)
  qed (use assms(3) in simp)
qed

lemma balanced_connection:
  assumes "connection dump iterate sq db day fd received broken welcomed w = Inr w'" "numbered w" "balanced n w fd'"
  shows "balanced (n + (if srv_serving w \<and> \<not> welcomed \<and> fd = fd' \<and>
      handle_request (api_of iterate sq day (sys_storage (srv_system w)) db) received = Inr Start_live_text then 1 else 0)) w' fd'"
proof (cases "srv_serving w")
  case False
  with assms(1,3) show ?thesis by (simp add: connection_def)
next
  case True
  have "numbered (w\<lparr>srv_sent := acts'\<rparr>)" for acts' using assms(2) by simp
  note start = streams_on_start [OF this]
  show ?thesis
  proof (cases "handle_request (api_of iterate sq day (sys_storage (srv_system w)) db) received")
    case (Inl a)
    with True assms(1) show ?thesis by (simp add: connection_def)
  next
    case (Inr r)
    with True assms(1,3) start show ?thesis
      by (cases r) (auto simp: connection_def balance_defs send_json_def split: if_splits option.splits)
  qed
qed

lemma balanced_step:
  assumes "service_step dump iterate sq e w = Inr w'" "numbered w" "balanced n w fd"
  shows "balanced (n + step_leaks dump iterate sq e w fd) w' fd"
proof (cases e)
  case (Connection day fd' received broken welcomed)
  with assms(1) balanced_connection [OF _ assms(2,3)] show ?thesis by (simp add: step_leaks_def)
next
  case (Connection_amid now seen day fd' received broken welcomed)
  with assms(1) balanced_connection [OF _ assms(2,3)] show ?thesis by (simp add: step_leaks_def)
next
  case (Stream_turn a ok)
  with assms(1) balanced_turn [OF _ assms(2,3)] show ?thesis by (simp add: step_leaks_def)
qed (use assms(1,3) in \<open>auto simp: step_leaks_def balance_defs split: sum.splits if_splits prod.splits\<close>)

lemma balanced_run:
  assumes "service_run dump iterate sq es w = Inr w'" "numbered w" "balanced n w fd"
  shows "balanced (n + run_leaks dump iterate sq es w fd) w' fd"
  using assms
proof (induction es arbitrary: w n)
  case (Cons e es)
  then obtain u where u: "service_step dump iterate sq e w = Inr u" "service_run dump iterate sq es u = Inr w'"
    by (auto split: sum.splits)
  from Cons.IH [OF u(2) streams_step(2) [OF u(1) Cons.prems(2)] balanced_step [OF u(1) Cons.prems(2,3)]] u(1)
  show ?case by (simp add: add.assoc)
qed simp

end
