(* ===== verification/Spec2Isabelle.thy ===== *)
theory Spec2Isabelle
  imports Descriptors
begin

text \<open>
  Verification of ntmd, a daemon that sniffs the network traffic of a Linux machine, matches each
  packet with the process it belongs to and keeps byte and packet counts per application.

  \<^bold>\<open>The program.\<close> \<open>main\<close> reads the command line and the configuration file, opens the database, and
  starts the traffic storage, the API server and the sniffer; then it dispatches captured frames until
  a signal stops it. For every frame the sniffer's callback builds a packet (\<open>Packet\<close>, which asks
  \<open>IPList\<close> which side is local), discards what is of no use, asks the \<open>ProcessResolver\<close> for the
  process (\<open>SocketIndex\<close>: from addresses and ports to a socket inode through \<open>/proc/net\<close>;
  \<open>ProcessIndex\<close>: from the inode to a process through \<open>/proc/<pid>/fd\<close>, with an \<open>LRUArray\<close> of recent
  processes), and adds the packet to the line of the application in the \<open>TrafficStorage\<close>. A second
  thread deposits the lines in the database every interval and clears them; the API's live streams
  hook into that thread, other API commands read a snapshot or the database.

  \<^bold>\<open>Theories and sources\<close> (paths under \<open>src/src\<close>):
  \<^item> \<open>Ntmd_Prelude\<close>: machine integers, the outcomes of a call that does not return (\<open>Uncaught\<close>
    exceptions, \<open>Json_error\<close> for that of the JSON library, \<open>Exited\<close>, \<open>Undefined\<close> for an access or an
    iterator outside of an object), collections, shared lemmas.
  \<^item> \<open>Cxx_Std\<close>, \<open>Cxx_Scan\<close>: what the sources use of the C and C++ libraries: character classes,
    \<open>std::stoi\<close>, \<open>std::to_string\<close>, \<open>std::getline\<close>, and \<open>sscanf\<close> for the directives that occur.
  \<^item> \<open>String_Util\<close>: \<open>util/StringUtil.cpp\<close>. \<open>LRU_Array\<close>: \<open>util/LRUArray.hpp\<close>.
  \<^item> \<open>IP_List\<close>, \<open>Packet\<close>, \<open>Packet_Hash\<close>: the files of these names under \<open>net\<close>.
  \<^item> \<open>Negative_Cache\<close>: the contract of an index with a list of keys that were searched in vain.
    \<open>Socket_Index\<close>, \<open>Process_Index\<close>: \<open>proc/SocketIndex.cpp\<close> and \<open>proc/ProcessIndex.cpp\<close>, which both
    satisfy it. \<open>Process_Resolver\<close>: \<open>proc/ProcessResolver.cpp\<close>.
  \<^item> \<open>Traffic_Storage\<close>: \<open>traffic/TrafficStorage.cpp\<close>. \<open>Live_Stream\<close>: the threads around it, with the
    loop of \<open>APIController::live\<close> and \<open>liveText\<close>.
  \<^item> \<open>Sniffer\<close>: \<open>net/Sniffer.cpp\<close> and \<open>net/SnifferLoop.cpp\<close>.
  \<^item> \<open>DB_Controller\<close>: \<open>traffic/DBController.cpp\<close>. \<open>API_Controller\<close>: the requests of
    \<open>api/APIController.cpp\<close> and the JSON of their replies. \<open>API_Server\<close>: the printing and sending of a reply,
    the server's start and loop, and the text that \<open>liveText\<close> sends, with the units of \<open>Human_Readable\<close>
    (\<open>util/HumanReadable.cpp\<close>).
  \<^item> \<open>Argument_Parser\<close> and \<open>Config\<close>: the files of these names under \<open>config\<close>. \<open>Daemon\<close>: \<open>Daemon.cpp\<close>,
    \<open>main.cpp\<close> and the constructor of \<open>DBController\<close>. \<open>Filesystem_Util\<close>: \<open>util/FilesystemUtil.cpp\<close>.
  \<^item> \<open>Program\<close>: the objects of \<open>main\<close> as one state and what their threads do to it, as actions in any
    order: the sniffer's callback in two parts, up to where \<open>add\<close> waits for its lock (\<open>Captured\<close>) and from
    there on (\<open>Accounted\<close>), deposits, the clearing threads. \<open>Service\<close>: these with the API server, the threads
    of the live streams, the signals and the test of the main loop, as one function \<open>service_step\<close> that
    also says how a step ends the process. A connection's queries may fall into a deposit (\<open>Connection_amid\<close>),
    since the API's thread does not hold the storage's lock. \<open>Descriptors\<close>: the accounts of the accepted
    connections. This theory: the properties across all parts.

  \<^bold>\<open>How the code is rendered.\<close> A class is a record of its members, a method a function on it that
  returns the new state; exceptions, \<open>exit\<close> and accesses outside of an object are values of
  \<open>abort + 'a\<close> (the packet constructor, whose only failure is a load outside of the captured bytes,
  uses \<open>option\<close>). Fixed width integers are words and wrap around; the host is little endian. Maps that
  are only looked up are functions to \<open>option\<close>. The files of \<open>/proc\<close>, the interface addresses and the
  capture library are arguments, given anew to each call, so that they may change arbitrarily between
  calls. So is \<open>dump\<close>, which prints a JSON value; what the theorems assume of it, \<open>strict_dump\<close>, is what the
  library documents, that it throws for strings that are not UTF-8. Log output is not modelled. Loops are
  structurally recursive or have a termination proof, so no fuel occurs; the loop of \<open>HumanReadable\<close>, which
  need not end, is a partial function to \<open>option\<close>. A \<open>double\<close> is a rational number rounded to 53 bits after each operation, or a special value. The endless loops of
  the program are lists of their turns. What a thread does while it holds a mutex is one operation; only the
  database is looked at by another thread meanwhile.

  \<^bold>\<open>Interfaces.\<close> \<open>lru_cache\<close> (a bounded list of recent items), \<open>address_set\<close> (a set built by a
  constructor and queried by \<open>contains\<close>), \<open>negative_cache\<close> (a lookup that searches once, remembers a miss
  until it is told to forget, and a hit unless a search offers another; its lemmas are about any sequence of
  lookups and clearings), \<open>value_codec\<close> (a value written to one line and read back), \<open>canonical_store\<close> (a
  keyed store in a normal form, where the order of writes does not matter).
  Each is interpreted on the model's definitions, the third on both indexes, the fourth on the four kinds
  of settings, the last on JSON objects; the properties of repeated lookups, of the resolver, of the
  configuration file and of the replies come from them.

  \<^bold>\<open>What the theorems show.\<close>
  \<^item> Strings: \<open>trim\<close> and \<open>split\<close> against their specifications; the number parsers invert the printers.
  \<^item> Packets: parsing inverts framing, which packets are kept, which captured lengths are safe; both
    directions of a flow have one key, the one the socket table gives.
  \<^item> Indexes: a table line as the kernel prints it is parsed back; a refresh overrides and never
    removes; a search is exact and in the documented order; hits and misses are remembered through
    whatever lookups and clearings come in between; \<open>std::stoi\<close> limits the inodes that can be read.
  \<^item> Resolver and sniffer: a packet is counted once, for the application the indexes hold, and the reply
    of a flow for the application of the request; a flow keeps its process through other packets and
    clearings.
  \<^item> Storage and streams, as a step relation over all interleavings with its reachable states: traffic
    is conserved between packets, memory and deposits, counters are exact below the overflow limits, no
    deposit uses an unset or dangling pointer, updates are whole deposits, one stream waits at a time;
    also when \<open>add\<close> races with a deposit, and that every stream that was served can lose its place.
  \<^item> Database: the statements fit their buffers; a deposit and a query refine an abstract set of tables;
    what is deposited comes back, within the limits of 32 bit columns and case-insensitive names.
  \<^item> API: every accepted connection is answered, and what stops the server, names that cannot be printed
    among it; replies that do not depend on the order of the hash map; timestamps read from the text of a
    request; the rates of the text stream, their rounding error, and when their computation ends.
  \<^item> The parts together: a client is answered with the lines the storage held at a deposit; from a start
    on, through any sequence of steps of all threads, a query and a snapshot sum up to the packets that
    were attributed to an application, the streams stay within their protocol, which steps can end the process
    and why, and descriptors are closed once, with one exception.
  \<^item> Settings and main loop: options, the configuration file and their precedence, writing and reading
    back, and that the loop ends with the first termination signal.

  \<^bold>\<open>Not modelled.\<close> The text that \<open>dump\<close> gives is a library's. Log and help messages and the release of
  resources in destructors are left out: no other part depends on their results. Of the socket calls
  only their results, the replies that are sent and the descriptors appear. The indexes' clearing threads
  are steps that may come at any time, without their clock, as are the deposits. Failing allocations
  and thread creations, data races on the hash map (the sniffer inserts without the lock) and the use of the
  streams' mutexes that \<open>std::mutex\<close> leaves undefined have no outcome of their own. Connections are served from the time
  on when \<open>main\<close> enters its loop, and signals are handled then; what threads that are still running do when \<open>main\<close> returns is not described.
\<close>

section \<open>Through all parts\<close>

text \<open>
  C5. Traffic goes through the storage, the database and the API without loss: a client that asks for the
  time of a deposit is answered with every application's line as the storage held it, and no other.
\<close>

theorem deposited_traffic_answered:
  assumes it: "iterates iterate" and fin: "finite (dom (mApplicationTraffic s))"
    and db: "sqlite_ok sq idle tables" "idle db"
    and fit: "depositable (iterate (mApplicationTraffic s))"
      "lossless (scast ts) (iterate (mApplicationTraffic s)) (tables db)"
    and dep: "deposit_in_db iterate sq (scast (ts :: i32)) s mem db = Inr (s', mem', db')"
  shows "\<exists>reply. handle_request (api_of iterate sq day s' db')
      (Some (''traffic-between '' @ to_string (sint ts) @ '' '' @ to_string (sint ts) @ [CHR 0x0A])) = Inr (Reply reply) \<and>
    json_get ''result'' reply = JText ''success'' \<and>
    json_get ''length'' reply = JNumber (int (card (dom (reported (mApplicationTraffic s))))) \<and>
    json_get name (json_get ''data'' reply) =
      (case reported (mApplicationTraffic s) name of None \<Rightarrow> JNull | Some line \<Rightarrow> line_json line)"
proof -
  let ?m = "mApplicationTraffic s" and ?now = "scast ts :: i64"
  have m: "map_of (iterate ?m) = ?m" using it fin by (simp add: iterates_def)
  have "db' = insertApplicationTraffic sq ?now (iterate ?m) db"
    using dep by (auto simp: deposit_in_db_def dest: deposit_InrD)
  then have "fetchTrafficBetween sq ?now ?now db' = reported ?m"
    using deposited_fetched [OF db fit] by (simp add: m reported_def)
  moreover have "distinct (map fst (iterate (reported ?m)))" "map_of (iterate (reported ?m)) = reported ?m"
    using it reported_dom [OF fin] by (simp_all add: iterates_def)
  ultimately show ?thesis
    using request_between [of "api_of iterate sq day s' db'" ts ts] success_reply [of "iterate (reported ?m)"]
      iterate_length [OF it reported_dom [OF fin]]
    by (simp add: api_of_def)
qed

definition sample_storage :: TrafficStorage where
  "sample_storage = (TrafficStorage_new 10)\<lparr>mApplicationTraffic :=
     [''Curl'' \<mapsto> \<lparr>bytesRx = 10, bytesTx = 20, pktRxCount = 3, pktTxCount = 4\<rparr>]\<rparr>"

theorem deposited_traffic_answered_witness:
  "\<exists>s mem db reply. deposit_in_db sorted_iterate mem_sqlite 7 sample_storage Map.empty sample_db = Inr (s, mem, db) \<and>
    handle_request (api_of sorted_iterate mem_sqlite 0 s db) (Some (''traffic-between 7 7'' @ [CHR 0x0A])) = Inr (Reply reply) \<and>
    json_get ''length'' reply = JNumber 1 \<and>
    json_get ''Curl'' (json_get ''data'' reply) =
      line_json \<lparr>bytesRx = 10, bytesTx = 20, pktRxCount = 3, pktTxCount = 4\<rparr>"
proof -
  let ?line = "\<lparr>bytesRx = 10, bytesTx = 20, pktRxCount = 3, pktTxCount = 4\<rparr> :: TrafficLine"
  have m: "mApplicationTraffic sample_storage = [''Curl'' \<mapsto> ?line]" by (simp add: sample_storage_def)
  have it: "sorted_iterate [''Curl'' \<mapsto> ?line] = [(''Curl'', ?line)]" by (simp add: sorted_iterate_def)
  obtain s mem db where d: "deposit_in_db sorted_iterate mem_sqlite 7 sample_storage Map.empty sample_db = Inr (s, mem, db)"
    by (simp add: deposit_in_db_def deposit_def deliver_def sample_storage_def TrafficStorage_new_def)
  have dep: "depositable (sorted_iterate (mApplicationTraffic sample_storage))"
    by (simp add: m it depositable_def sample_db_names)
  have now: "scast (7 :: i32) = (7 :: i64)" by simp
  have fit: "lossless 7 (sorted_iterate (mApplicationTraffic sample_storage)) (mem_tables sample_db)"
    by (simp add: m it lossless_def sample_db_names sample_db_tables)
  have fin: "finite (dom (mApplicationTraffic sample_storage))" by (simp add: m)
  have idle: "mem_idle sample_db" by (simp add: mem_idle_def sample_db_def)
  have request: "''traffic-between '' @ to_string (sint (7 :: i32)) @ '' '' @ to_string (sint (7 :: i32)) @ [CHR 0x0A] =
      ''traffic-between 7 7'' @ [CHR 0x0A]"
    by (simp add: to_string_def show_nat.simps digit_char_def char_of_def bit_0)
  have r: "reported [''Curl'' \<mapsto> ?line] = [''Curl'' \<mapsto> ?line]"
    by (simp add: reported_def fun_eq_iff TrafficLine_empty_def)
  from deposited_traffic_answered [OF sorted_iterates fin mem_sqlite_ok idle dep, of 7, unfolded now, OF fit d,
      of 0 "''Curl''"] d show ?thesis
    unfolding request m r by auto
qed

section \<open>The whole service\<close>

text \<open>A start with the default configuration, for the example.\<close>

definition sample_start :: start_env where
  "sample_start = \<lparr>start_euid = 0, start_argv = [''ntmd''],
     start_files = \<lparr>env_regular_file = \<lambda>_. False, env_config_file = \<lambda>_. None, env_writable = \<lambda>_. True\<rparr>,
     start_db_opens = \<lambda>_. True,
     start_pcap = \<lparr>findalldevs = Some [''eth0''], pcap_create = \<lambda>_. True, pcap_activate = \<lambda>_ _ _. 0,
       pcap_getifaddrs = Some [\<lparr>ifa_name = ''eth0'', ifa_addr = Some 0x0500000A\<rparr>]\<rparr>,
     start_proc = sample_env\<lparr>env_procdir := Some [], env_file := \<lambda>_. None\<rparr>\<rparr>"

lemma sample_main_start:
  "\<exists>p. main_start sample_start = Inr p \<and> prog_sniffer p = sample_sniffer \<and> prog_storage p = TrafficStorage_new 10"
  by (simp add: Let_def main_start_def sample_start_def ArgumentParser_new_def ArgumentParser_init_def Config_new_def
      writeConfig_def mergeArgs_def Config_init_def DBController_new_def Sniffer_new_def ProcessResolver_new_def
      ProcessIndex_new_def ProcessIndex_refresh_def findDevice_def first_device_def IPList_init_eq SocketIndex_new_def SocketIndex_refresh.simps
      sample_sniffer_def sample_resolver_def sample_index_def sample_list_def)

lemma sample_contribution: "contribution sample_pkt = \<lparr>bytesRx = 60, bytesTx = 0, pktRxCount = 1, pktTxCount = 0\<rparr>"
  by (simp add: contribution_def sample_packet_def expected_packet_def local_direction_def)

text \<open>
  C1. The service keeps account of everything it attributes: after a start that succeeded and any
  sequence of steps of its threads (frames, accounting, deposits, clearings, connections, live streams,
  signals), a client that asks, while no deposit is under way, for the traffic since the start and then for a
  snapshot gets two answers whose
  lines, with the packet the sniffer's thread may have in hand, add up, for every application, to the
  contributions of exactly the packets of use that were attributed to it; as long as deposits come in
  different seconds and hold less than \<open>2 ^ 31\<close> bytes of an application, and the names in memory are valid
  UTF-8, which the JSON library needs to print them.
\<close>

theorem service_history:
  assumes "iterates iterate" "sqlite_ok sq idle tables" "good_names names"
    and "service_start env sockets handled db = Inr w0" "idle db"
    and "tables_ok names (sint since) (sint since - 1) (tables db)"
    and "service_run dump iterate sq es w0 = Inr w" "run_fits dump iterate sq names (sint since - 1) es w0" "srv_serving w"
    and "strict_dump dump" "dom (mApplicationTraffic (sys_storage (srv_system w))) \<subseteq> Collect utf8"
  shows "\<exists>w1 w2 kept waiting line1 line2.
    service_step dump iterate sq (Connection day fd (Some (''traffic-since '' @ to_string (sint (since :: i32)) @ [CHR 0x0A])) broken welcomed) w = Inr w1 \<and>
    service_step dump iterate sq (Connection day' fd' (Some (''snapshot'' @ [CHR 0x0A])) broken' welcomed') w1 = Inr w2 \<and>
    srv_sent w2 = srv_sent w @ [Sent fd kept, Closed_fd fd, Sent fd' waiting, Closed_fd fd'] \<and>
    shows_line kept name line1 \<and> shows_line waiting name line2 \<and>
    line1 + line2 + in_hand (srv_system w) name = run_credits dump iterate sq es w0 name"
proof -
  from assms(4) obtain p where p: "main_start env = Inr p" "srv_system w0 = system_of p db" by (rule service_start_cases)
  have since: "- (2 ^ 31) \<le> sint since" "sint since < 2 ^ 31"
    using sint_greater_eq [of since] sint_less [of since] by simp_all
  have start: "sniffer_ok (prog_sniffer p)" "mApplicationTraffic (prog_storage p) = Map.empty"
    using p(1) by (auto elim!: main_start_cases dest: sniffer_ok_new simp: TrafficStorage_new_def)
  have ok: "sys_ok idle tables names (sint since) (sint since - 1) (srv_system w0)"
    using start assms(5,6) by (simp add: p(2) sys_ok_def system_of_def)
  let ?s = "srv_system w" and ?kept = "kept_line (sint since) (tables (sys_db (srv_system w))) name"
  from run_history [OF assms(1-3) ok assms(7,8) since(1), of name] since(2)
  obtain latest where latest: "latest < 2 ^ 31" "sys_ok idle tables names (sint since) latest ?s"
    and h: "history tables (sint since) ?s name = history tables (sint since) (srv_system w0) name + run_credits dump iterate sq es w0 name"
    by auto
  have "history tables (sint since) (srv_system w0) name = 0"
    using kept_line_start [OF assms(6)] start(2) by (simp add: p(2) history_def system_of_def in_hand_def)
  with h have sum: "?kept + line_of (mApplicationTraffic (sys_storage ?s)) name + in_hand ?s name = run_credits dump iterate sq es w0 name"
    by (simp add: history_def)
  have tabs: "tables_ok names (sint since) latest (tables (sys_db ?s))" and fin: "finite (dom (mApplicationTraffic (sys_storage ?s)))"
    using latest(2) by (simp_all add: sys_ok_def)
  from since_reply [OF assms(1-3) tabs latest(1), of day "sys_storage ?s" name] obtain reply where
    reply: "json_get ''result'' reply = JText ''success''" "json_utf8 reply" "shows_line reply name ?kept"
    and request: "handle_request (api_of iterate sq day (sys_storage ?s) (sys_db ?s))
      (Some (''traffic-since '' @ to_string (sint since) @ [CHR 0x0A])) = Inr (Reply reply)"
    by (auto simp: shows_line_def)
  note snap = snapshot_shows [OF assms(1) fin, of sq day' "sys_db ?s"]
  show ?thesis
    using connection_reply [OF assms(10,9) reply(1,2) request, of fd broken welcomed]
      connection_reply [of _ "w\<lparr>srv_sent := srv_sent w @ [Sent fd reply, Closed_fd fd]\<rparr>" _ iterate sq day',
        OF assms(10) _ snap(1) snap(3) [OF assms(11)], where fd = fd' and broken = broken' and welcomed = welcomed']
      reply(3) snap(2) [of name] sum assms(9) request_snapshot
    by (intro exI conjI) (simp | assumption)+
qed

text \<open>
  For the example: a frame of \<open>ssh\<close> is captured, a client connects for a live stream and waits before the
  packet is accounted, the deposit wakes it, it sends its update, and a hangup signal arrives before the
  next test of the loop.
\<close>

definition sample_sockets :: socket_env where
  "sample_sockets = \<lparr>sock_create = True, sock_attach = True, sock_bind = \<lambda>_. True\<rparr>"

definition sample_steps :: "thread_step list" where
  "sample_steps = [Thread (Captured sample_host sample_hdr sample_raw), Connection 0 3 (Some (''live'' @ [CHR 0x0A])) False True,
     Stream_turn 0 True, Thread Accounted, Thread (Deposit_due 7), Stream_turn 0 True, Stream_turn 0 True, Signalled SIGHUP, Loop_test]"

text \<open>From the deposit on, for a stream that waits.\<close>

lemma sample_stream:
  fixes w3 :: "mem_db service"
  assumes w3: "srv_system w3 = \<lparr>sys_sniffer = sn, sys_storage = (TrafficStorage_new 10)\<lparr>mApplicationTraffic := traffic,
        mAPIWaiting := True, apiMutex := Ref 0, apiTrafficMap := Ref 0, apiInterval := Ref 0\<rparr>,
        sys_memory = [0 \<mapsto> new_frame\<lparr>await_locked := True\<rparr>], sys_db = db, sys_pending = None\<rparr>"
      "srv_clients w3 = [0 \<mapsto> \<lparr>client_fd = fd, client_text = False, client_pc = Awaiting\<rparr>]" "srv_messages w3 = []"
    and printed: "json_utf8 (success_json (json_set ''interval'' (JNumber 10) (trafficToJson (sorted_iterate traffic))))"
  obtains w4 w5 w6 where
    "service_step sample_dump sorted_iterate mem_sqlite (Thread (Deposit_due 7)) w3 = Inr w4"
    "service_step sample_dump sorted_iterate mem_sqlite (Stream_turn 0 True) w4 = Inr w5"
    "service_step sample_dump sorted_iterate mem_sqlite (Stream_turn 0 True) w5 = Inr w6"
    "mApplicationTraffic (sys_storage (srv_system w6)) = Map.empty" "sys_pending (srv_system w6) = None"
    "srv_messages w6 = [(0, Update traffic (Some 10))]"
    "srv_daemon w6 = srv_daemon w3" "srv_serving w6 = srv_serving w3" "srv_handled w6 = srv_handled w3"
proof -
  obtain w4 where s4: "service_step sample_dump sorted_iterate mem_sqlite (Thread (Deposit_due 7)) w3 = Inr w4"
    and w4: "mApplicationTraffic (sys_storage (srv_system w4)) = Map.empty" "sys_pending (srv_system w4) = None"
      "sys_memory (srv_system w4) = [0 \<mapsto> \<lparr>await_locked = False, trafficMap = traffic, frame_interval = Some 10\<rparr>]"
      "srv_clients w4 = srv_clients w3" "srv_messages w4 = []" "srv_daemon w4 = srv_daemon w3"
      "srv_serving w4 = srv_serving w3" "srv_handled w4 = srv_handled w3"
    by (simp add: w3 deposit_in_db_def deposit_def deliver_def write_frame_def new_frame_def TrafficStorage_new_def Let_def)
  obtain w5 where s5: "service_step sample_dump sorted_iterate mem_sqlite (Stream_turn 0 True) w4 = Inr w5"
    and w5: "mApplicationTraffic (sys_storage (srv_system w5)) = Map.empty" "sys_pending (srv_system w5) = None"
      "sys_memory (srv_system w5) = [0 \<mapsto> \<lparr>await_locked = True, trafficMap = traffic, frame_interval = Some 10\<rparr>]"
      "srv_clients w5 = [0 \<mapsto> \<lparr>client_fd = fd, client_text = False, client_pc = Sending\<rparr>]" "srv_messages w5 = []"
      "srv_daemon w5 = srv_daemon w3" "srv_serving w5 = srv_serving w3" "srv_handled w5 = srv_handled w3"
    by (simp add: w3 w4 stream_turn_def move_client_def)
  obtain w6 where s6: "service_step sample_dump sorted_iterate mem_sqlite (Stream_turn 0 True) w5 = Inr w6"
    and w6: "mApplicationTraffic (sys_storage (srv_system w6)) = Map.empty" "sys_pending (srv_system w6) = None"
      "srv_messages w6 = [(0, Update traffic (Some 10))]" "srv_daemon w6 = srv_daemon w3"
      "srv_serving w6 = srv_serving w3" "srv_handled w6 = srv_handled w3"
    by (simp add: w5 stream_turn_def move_client_def stream_payload_def live_payload_def sample_dump_def printed)
  show thesis by (rule that [OF s4 s5 s6 w6])
qed

text \<open>The first part of the callback on the frame of \<open>ssh\<close>.\<close>

lemma sample_fetch:
  obtains r where "ProcessResolver_resolve sample_host sample_pkt (mProcessResolver sample_sniffer) = Inr (\<lparr>comm = ''ssh'', proc_pid = 10\<rparr>, r)"
    "pktCallback_fetch sample_host sample_hdr sample_raw (sample_sniffer, TrafficStorage_new 10) =
      Inr (Some (\<lparr>comm = ''ssh'', proc_pid = 10\<rparr>, sample_pkt), sample_sniffer\<lparr>mProcessResolver := r\<rparr>,
        (TrafficStorage_new 10)\<lparr>mApplicationTraffic := [''ssh'' \<mapsto> TrafficLine_init]\<rparr>)"
proof -
  obtain r where r: "ProcessResolver_resolve sample_host sample_pkt (mProcessResolver sample_sniffer) = Inr (\<lparr>comm = ''ssh'', proc_pid = 10\<rparr>, r)"
    using sample_resolve by (auto simp: sample_sniffer_def)
  with sample_new(1) sample_pkt_ok(2) show thesis
    by (intro that [OF r]) (simp add: pktCallback_fetch_def TrafficStorage_line_def TrafficStorage_new_def)
qed

lemma sample_service:
  obtains w0 :: "mem_db service" and w where
    "service_start sample_start sample_sockets (\<lambda>_. False) (True, []) = Inr w0"
    "service_run sample_dump sorted_iterate mem_sqlite sample_steps w0 = Inr w" "srv_serving w"
    "run_fits sample_dump sorted_iterate mem_sqlite {''ssh''} 4 sample_steps w0"
    "run_credits sample_dump sorted_iterate mem_sqlite sample_steps w0 ''ssh'' = contribution sample_pkt"
    "srv_messages w = [(0, Update [''ssh'' \<mapsto> contribution sample_pkt] (Some 10))]"
    "mApplicationTraffic (sys_storage (srv_system w)) = Map.empty" "sys_pending (srv_system w) = None"
proof -
  let ?line = "contribution sample_pkt"
  obtain p where p: "main_start sample_start = Inr p" "prog_sniffer p = sample_sniffer" "prog_storage p = TrafficStorage_new 10"
    using sample_main_start by blast
  let ?w0 = "\<lparr>srv_system = system_of p (True, []), srv_serving = True, srv_sent = [], srv_started = 0, srv_clients = Map.empty,
    srv_messages = [], srv_handled = fst (Daemon_new (\<lambda>_. False)), srv_daemon = Daemon_init\<rparr> :: mem_db service"
  have start: "service_start sample_start sample_sockets (\<lambda>_. False) (True, []) = Inr ?w0"
    by (simp add: service_start_def p(1) Daemon_new_def startSocketServer_def sample_sockets_def)
  obtain r where r: "ProcessResolver_resolve sample_host sample_pkt (mProcessResolver sample_sniffer) = Inr (\<lparr>comm = ''ssh'', proc_pid = 10\<rparr>, r)"
    and c: "pktCallback_fetch sample_host sample_hdr sample_raw (sample_sniffer, TrafficStorage_new 10) =
      Inr (Some (\<lparr>comm = ''ssh'', proc_pid = 10\<rparr>, sample_pkt), sample_sniffer\<lparr>mProcessResolver := r\<rparr>,
        (TrafficStorage_new 10)\<lparr>mApplicationTraffic := [''ssh'' \<mapsto> TrafficLine_init]\<rparr>)"
    by (rule sample_fetch)
  let ?sn = "sample_sniffer\<lparr>mProcessResolver := r\<rparr>" and ?ssh = "\<lparr>comm = ''ssh'', proc_pid = 10\<rparr>"
  let ?fetched = "(TrafficStorage_new 10)\<lparr>mApplicationTraffic := [''ssh'' \<mapsto> TrafficLine_init]\<rparr>"
  let ?ts = "(TrafficStorage_new 10)\<lparr>mApplicationTraffic := [''ssh'' \<mapsto> ?line]\<rparr>"
  let ?w1 = "?w0\<lparr>srv_system := \<lparr>sys_sniffer = ?sn, sys_storage = ?fetched, sys_memory = Map.empty, sys_db = (True, []),
    sys_pending = Some (?ssh, sample_pkt)\<rparr>\<rparr>"
  have s1: "service_step sample_dump sorted_iterate mem_sqlite (Thread (Captured sample_host sample_hdr sample_raw)) ?w0 = Inr ?w1"
    using c p(2,3) by (simp add: system_of_def)
  let ?c = "\<lparr>client_fd = 3, client_text = False, client_pc = Starting\<rparr>"
  let ?w2 = "?w1\<lparr>srv_sent := [Live_thread 3], srv_clients := [0 \<mapsto> ?c], srv_started := 1\<rparr>"
  have s2: "service_step sample_dump sorted_iterate mem_sqlite (Connection 0 3 (Some (''live'' @ [CHR 0x0A])) False True) ?w1 = Inr ?w2"
    using request_live by (simp add: connection_def start_stream_def)
  let ?hooked = "\<lambda>ts. ts\<lparr>mAPIWaiting := True, apiMutex := Ref 0, apiTrafficMap := Ref 0, apiInterval := Ref 0\<rparr>"
  obtain w3 where s3: "service_step sample_dump sorted_iterate mem_sqlite (Stream_turn 0 True) ?w2 = Inr w3"
    and w3: "srv_system w3 = \<lparr>sys_sniffer = ?sn, sys_storage = ?hooked ?fetched, sys_memory = [0 \<mapsto> new_frame\<lparr>await_locked := True\<rparr>],
        sys_db = (True, []), sys_pending = Some (?ssh, sample_pkt)\<rparr>"
      "srv_clients w3 = [0 \<mapsto> ?c\<lparr>client_pc := Awaiting\<rparr>]" "srv_messages w3 = []" "srv_daemon w3 = Daemon_init" "srv_serving w3"
      "srv_handled w3 = fst (Daemon_new (\<lambda>_. False))"
    by (simp add: stream_turn_def awaitSnapshot_def new_frame_def move_client_def TrafficStorage_new_def)
  let ?w3' = "w3\<lparr>srv_system := \<lparr>sys_sniffer = ?sn, sys_storage = ?hooked ?ts, sys_memory = [0 \<mapsto> new_frame\<lparr>await_locked := True\<rparr>],
        sys_db = (True, []), sys_pending = None\<rparr>\<rparr>"
  have "TrafficStorage_account ?ssh sample_pkt (?hooked ?fetched) = Inr (?hooked ?ts)"
    by (simp add: account_cases line_of_def TrafficLine_init_zero TrafficStorage_new_def)
  then have s3': "service_step sample_dump sorted_iterate mem_sqlite (Thread Accounted) w3 = Inr ?w3'" by (simp add: w3(1))
  have "sorted_iterate [''ssh'' \<mapsto> ?line] = [(''ssh'', ?line)]" by (simp add: sorted_iterate_def)
  then have printed: "json_utf8 (success_json (json_set ''interval'' (JNumber 10) (trafficToJson (sorted_iterate [''ssh'' \<mapsto> ?line]))))"
    by (simp add: json_utf8_interval utf8_ascii)
  obtain w4 w5 w6 where s4: "service_step sample_dump sorted_iterate mem_sqlite (Thread (Deposit_due 7)) ?w3' = Inr w4"
    and s5: "service_step sample_dump sorted_iterate mem_sqlite (Stream_turn 0 True) w4 = Inr w5"
    and s6: "service_step sample_dump sorted_iterate mem_sqlite (Stream_turn 0 True) w5 = Inr w6"
    and w6: "mApplicationTraffic (sys_storage (srv_system w6)) = Map.empty" "sys_pending (srv_system w6) = None"
      "srv_messages w6 = [(0, Update [''ssh'' \<mapsto> ?line] (Some 10))]"
      "srv_daemon w6 = srv_daemon w3" "srv_serving w6 = srv_serving w3" "srv_handled w6 = srv_handled w3"
    using sample_stream [of ?w3' ?sn "[''ssh'' \<mapsto> ?line]" "(True, [])" 3] w3(2,3) printed by auto
  let ?w7 = "w6\<lparr>srv_daemon := signalHandler SIGHUP Daemon_init\<rparr>"
  let ?w8 = "w6\<lparr>srv_daemon := Daemon_init\<rparr>"
  have s7: "service_step sample_dump sorted_iterate mem_sqlite (Signalled SIGHUP) w6 = Inr ?w7"
    by (simp add: w3(4,6) w6 Daemon_new_def)
  have s8: "service_step sample_dump sorted_iterate mem_sqlite Loop_test ?w7 = Inr ?w8"
    by (simp add: w6(2) running_def reload_def Daemon_init_def)
  note steps = s1 s2 s3 s3' s4 s5 s6 s7 s8
  have run: "service_run sample_dump sorted_iterate mem_sqlite sample_steps ?w0 = Inr ?w8"
    unfolding sample_steps_def service_run.simps steps sum.case by (rule refl)
  have fits: "run_fits sample_dump sorted_iterate mem_sqlite {''ssh''} 4 sample_steps ?w0"
    unfolding sample_steps_def run_fits.simps steps sum.case
    by (simp add: step_fits_def action_fits_def latest_step_def latest_after_def deposit_fits_def sample_contribution)
  have credits: "run_credits sample_dump sorted_iterate mem_sqlite sample_steps ?w0 ''ssh'' = ?line"
    unfolding sample_steps_def run_credits.simps steps sum.case
    using p(2) sample_new(1) sample_pkt_ok(1) r by (simp add: step_credit_def system_of_def)
  show thesis using that [OF start run _ fits credits] w6 w3(5) by simp
qed

theorem service_history_witness:
  "\<exists>(w0 :: mem_db service) w w1 w2 kept waiting line1 line2.
    service_start sample_start sample_sockets (\<lambda>_. False) (True, []) = Inr w0 \<and>
    service_run sample_dump sorted_iterate mem_sqlite sample_steps w0 = Inr w \<and>
    service_step sample_dump sorted_iterate mem_sqlite (Connection 0 4 (Some (''traffic-since 5'' @ [CHR 0x0A])) False True) w = Inr w1 \<and>
    service_step sample_dump sorted_iterate mem_sqlite (Connection 0 5 (Some (''snapshot'' @ [CHR 0x0A])) False True) w1 = Inr w2 \<and>
    srv_sent w2 = srv_sent w @ [Sent 4 kept, Closed_fd 4, Sent 5 waiting, Closed_fd 5] \<and>
    shows_line kept ''ssh'' line1 \<and> shows_line waiting ''ssh'' line2 \<and> line1 + line2 = contribution sample_pkt"
proof -
  obtain w0 :: "mem_db service" and w where w:
    "service_start sample_start sample_sockets (\<lambda>_. False) (True, []) = Inr w0"
    "service_run sample_dump sorted_iterate mem_sqlite sample_steps w0 = Inr w" "srv_serving w"
    "run_fits sample_dump sorted_iterate mem_sqlite {''ssh''} 4 sample_steps w0"
    "run_credits sample_dump sorted_iterate mem_sqlite sample_steps w0 ''ssh'' = contribution sample_pkt"
    "mApplicationTraffic (sys_storage (srv_system w)) = Map.empty" "sys_pending (srv_system w) = None"
    by (rule sample_service)
  then have printed: "dom (mApplicationTraffic (sys_storage (srv_system w))) \<subseteq> Collect utf8" by simp
  have names: "good_names {''ssh''}" by (simp add: good_names_def plain_name_def table_key_def tolower_def isupper_def)
  have tabs: "tables_ok {''ssh''} (sint (5 :: i32)) (sint (5 :: i32) - 1) (mem_tables (True, []))"
    by (simp add: tables_ok_def mem_tables_def mem_find_def)
  have idle: "mem_idle (True, [])" by (simp add: mem_idle_def)
  have fits: "run_fits sample_dump sorted_iterate mem_sqlite {''ssh''} (sint (5 :: i32) - 1) sample_steps w0" using w(4) by simp
  have request: "''traffic-since '' @ to_string (sint (5 :: i32)) @ [CHR 0x0A] = ''traffic-since 5'' @ [CHR 0x0A]"
    by (simp add: to_string_def show_nat.simps digit_char_def char_of_def bit_0)
  from service_history [OF sorted_iterates mem_sqlite_ok names w(1) idle tabs w(2) fits w(3) sample_dump_strict printed,
      of 0 4 False True 0 5 False True "''ssh''", unfolded request w(5)] w(1,2,7)
  show ?thesis by (auto simp: in_hand_def)
qed

text \<open>
  C2. Whatever its threads do and in whatever order, the service behaves as the protocol of the live
  streams allows: the storage, the streams' variables and the messages are in a state that the steps of
  that protocol reach with the same deposits. Hence every update a client was sent is one of the
  deposits of the run, whole and with the configured interval, and the deposits together with what
  is still in memory and the packet that the sniffer's thread may have in hand are what the captured packets
  contributed to each application.
\<close>

theorem service_streams:
  assumes "service_start env sockets handled db = Inr w0" "service_run dump iterate sq es w0 = Inr w"
  shows "\<exists>p les. main_start env = Inr p \<and>
    live_run (live_init (cfg_interval (prog_config p))) les (live_of (run_deposits dump iterate sq es w0) w) \<and>
    list_all (\<lambda>(a, m). case m of Refused \<Rightarrow> True
      | Update t i \<Rightarrow> t \<in> set (run_deposits dump iterate sq es w0) \<and> i = Some (cfg_interval (prog_config p))) (srv_messages w) \<and>
    sum_list (map (\<lambda>m. line_of m name) (run_deposits dump iterate sq es w0)) +
      line_of (mApplicationTraffic (sys_storage (srv_system w))) name + in_hand (srv_system w) name =
      run_credits dump iterate sq es w0 name"
proof -
  from service_streams_run [OF assms] obtain p :: program and les where p: "main_start env = Inr p"
    and run: "live_run (live_init (cfg_interval (prog_config p))) les (live_of (run_deposits dump iterate sq es w0) w)" by blast
  have "list_all (\<lambda>(a, m). case m of Refused \<Rightarrow> True
      | Update t i \<Rightarrow> t \<in> set (run_deposits dump iterate sq es w0) \<and> i = Some (cfg_interval (prog_config p))) (srv_messages w)"
    using update_interval [OF run] by (fastforce simp: list_all_iff split: message.split)
  moreover from assms(1) obtain p' where "main_start env = Inr p'" "srv_system w0 = system_of p' db" by (rule service_start_cases)
  then have "capture_ok (srv_system w0)" "held w0 name = 0"
    by (auto elim!: main_start_cases dest: sniffer_ok_new simp: capture_ok_iff system_of_def TrafficStorage_new_def
        held_def in_hand_def)
  with conserved_run [OF assms(2), of name] have
    "sum_list (map (\<lambda>m. line_of m name) (run_deposits dump iterate sq es w0)) + held w name = run_credits dump iterate sq es w0 name"
    by simp
  then have "sum_list (map (\<lambda>m. line_of m name) (run_deposits dump iterate sq es w0)) +
      line_of (mApplicationTraffic (sys_storage (srv_system w))) name + in_hand (srv_system w) name =
      run_credits dump iterate sq es w0 name" by (simp add: held_def add.assoc)
  ultimately show ?thesis using p run by blast
qed

theorem service_streams_witness:
  "\<exists>(w0 :: mem_db service) w. service_start sample_start sample_sockets (\<lambda>_. False) (True, []) = Inr w0 \<and>
    service_run sample_dump sorted_iterate mem_sqlite sample_steps w0 = Inr w \<and>
    [''ssh'' \<mapsto> contribution sample_pkt] \<in> set (run_deposits sample_dump sorted_iterate mem_sqlite sample_steps w0) \<and>
    sum_list (map (\<lambda>m. line_of m ''ssh'') (run_deposits sample_dump sorted_iterate mem_sqlite sample_steps w0)) = contribution sample_pkt"
proof -
  obtain w0 :: "mem_db service" and w where w:
    "service_start sample_start sample_sockets (\<lambda>_. False) (True, []) = Inr w0"
    "service_run sample_dump sorted_iterate mem_sqlite sample_steps w0 = Inr w"
    "run_credits sample_dump sorted_iterate mem_sqlite sample_steps w0 ''ssh'' = contribution sample_pkt"
    "srv_messages w = [(0, Update [''ssh'' \<mapsto> contribution sample_pkt] (Some 10))]"
    "mApplicationTraffic (sys_storage (srv_system w)) = Map.empty" "sys_pending (srv_system w) = None"
    by (rule sample_service)
  with service_streams [OF w(1,2), of "''ssh''"] show ?thesis by (auto simp: in_hand_def)
qed

text \<open>
  C3. Among the steps of the model only these can end the service, in any order of steps: a frame that is read
  beyond what was captured, an exception of the scan of \<open>/proc\<close> or a missing \<open>/proc\<close>, the accounting of a packet
  whose line a deposit has erased since its reference was taken, a request that leaves the server's
  buffers, a name that is not valid UTF-8 in a reply or in the update of a JSON stream, an error or a
  refusal that is sent on a broken connection, a line of more than \<open>10 ^ 18\<close> bytes in the text of a stream, or the
  main loop after a termination signal. No deposit, no clearing, no signal by itself and no other turn
  of a stream ends it. (Not steps of the model: failing allocations and thread creations, and undefined
  behaviour of the unsynchronised hash map and of the streams' mutexes.)
\<close>

theorem service_stops:
  assumes "strict_dump dump" "iterates iterate" "service_start env sockets handled db = Inr w0"
    and "service_run dump iterate sq es w0 = Inl r"
  shows "\<exists>es1 e es2 w. es = es1 @ e # es2 \<and> service_run dump iterate sq es1 w0 = Inr w \<and>
    service_step dump iterate sq e w = Inl r \<and> stop_reason iterate sq e w r"
proof -
  from run_stops [OF assms(4)] obtain es1 e es2 w where
    e: "es = es1 @ e # es2" "service_run dump iterate sq es1 w0 = Inr w" "service_step dump iterate sq e w = Inl r" by blast
  from step_stops [OF assms(1,2) service_ok_run [OF assms(3) e(2)] e(3)] e show ?thesis by blast
qed

text \<open>A termination signal; and a deposit between the two parts of \<open>add\<close>.\<close>

theorem service_stops_witness:
  "\<exists>(w0 :: mem_db service) es1 e es2 (w :: mem_db service) es1' e' es2' (w' :: mem_db service).
    service_start sample_start sample_sockets (\<lambda>_. False) (True, []) = Inr w0 \<and>
    service_run sample_dump sorted_iterate mem_sqlite [Loop_test, Signalled SIGTERM, Thread Clear_sockets, Loop_test] w0 = Inl Finished \<and>
    [Loop_test, Signalled SIGTERM, Thread Clear_sockets, Loop_test] = es1 @ e # es2 \<and>
    stop_reason sorted_iterate mem_sqlite e w Finished \<and>
    service_run sample_dump sorted_iterate mem_sqlite
      [Thread (Captured sample_host sample_hdr sample_raw), Thread (Deposit_due 7), Thread Accounted] w0 = Inl (Ended (Aborted Undefined)) \<and>
    [Thread (Captured sample_host sample_hdr sample_raw), Thread (Deposit_due 7), Thread Accounted] = es1' @ e' # es2' \<and>
    stop_reason sorted_iterate mem_sqlite e' w' (Ended (Aborted Undefined))"
proof -
  let ?es = "[Thread (Captured sample_host sample_hdr sample_raw), Thread (Deposit_due 7), Thread Accounted]"
  obtain p where p: "main_start sample_start = Inr p" "prog_sniffer p = sample_sniffer" "prog_storage p = TrafficStorage_new 10"
    using sample_main_start by blast
  obtain w0 :: "mem_db service" where w0: "service_start sample_start sample_sockets (\<lambda>_. False) (True, []) = Inr w0"
    and sys: "srv_system w0 = system_of p (True, [])"
    by (simp add: service_start_def p(1) Daemon_new_def)
  from w0 have "srv_handled w0 = (\<lambda>_. True)" by (rule service_start_cases)
  moreover from w0 have "mIsRunning (srv_daemon w0)" by (rule service_start_cases)
  ultimately have run: "service_run sample_dump sorted_iterate mem_sqlite [Loop_test, Signalled SIGTERM, Thread Clear_sockets, Loop_test] w0 = Inl Finished"
    by (simp add: sys system_of_def running_def reload_def Let_def)
  obtain r where c: "pktCallback_fetch sample_host sample_hdr sample_raw (sample_sniffer, TrafficStorage_new 10) =
      Inr (Some (\<lparr>comm = ''ssh'', proc_pid = 10\<rparr>, sample_pkt), sample_sniffer\<lparr>mProcessResolver := r\<rparr>,
        (TrafficStorage_new 10)\<lparr>mApplicationTraffic := [''ssh'' \<mapsto> TrafficLine_init]\<rparr>)"
    by (rule sample_fetch)
  have race: "service_run sample_dump sorted_iterate mem_sqlite ?es w0 = Inl (Ended (Aborted Undefined))"
    by (simp add: sys system_of_def p(2,3) c [unfolded TrafficStorage_new_def] deposit_in_db_def deposit_def deliver_def TrafficStorage_new_def
        TrafficStorage_account_def Let_def)
  from service_stops [OF sample_dump_strict sorted_iterates w0 run] obtain es1 e es2 and w :: "mem_db service" where
    "[Loop_test, Signalled SIGTERM, Thread Clear_sockets, Loop_test] = es1 @ e # es2"
    "stop_reason sorted_iterate mem_sqlite e w Finished"
    by blast
  moreover from service_stops [OF sample_dump_strict sorted_iterates w0 race] obtain es1' e' es2' and w' :: "mem_db service" where
    "?es = es1' @ e' # es2'" "stop_reason sorted_iterate mem_sqlite e' w' (Ended (Aborted Undefined))"
    by blast
  ultimately show ?thesis using w0 run race by (intro exI conjI)
qed

text \<open>
  C4. The service accounts for its descriptors: after any steps of its threads, every descriptor was
  closed, by its reply or by its stream, as often as it came from \<open>accept\<close>, but for the streams that still
  use it; the exception are text streams whose welcome could not be sent, each of which leaves one
  open.
\<close>

theorem service_descriptors:
  assumes "service_start env sockets handled db = Inr w0" "service_run dump iterate sq es w0 = Inr w"
  shows "times_opened w fd = times_closed w fd + streams_on w fd + run_leaks dump iterate sq es w0 fd"
proof -
  from assms(1) have "numbered w0" by (rule service_start_cases)
  moreover have "balanced 0 w0 fd"
    using assms(1) by (auto simp: service_start_def Let_def balance_defs streams_on_def stream_numbers_def
        split: sum.splits prod.splits)
  ultimately show ?thesis using balanced_run [OF assms(2)] by (fastforce simp: balanced_def)
qed

text \<open>Three connections: a snapshot, a stream, and a text stream that has gone before its welcome.\<close>

theorem service_descriptors_witness:
  "\<exists>(w0 :: mem_db service) w. service_start sample_start sample_sockets (\<lambda>_. False) (True, []) = Inr w0 \<and>
    service_run sample_dump sorted_iterate mem_sqlite [Connection 0 3 (Some (''snapshot'' @ [CHR 0x0A])) False True,
      Connection 0 4 (Some (''live'' @ [CHR 0x0A])) False True, Connection 0 5 (Some (''live-text'' @ [CHR 0x0A])) False False] w0 = Inr w \<and>
    times_opened w 3 = times_closed w 3 \<and> times_opened w 4 = times_closed w 4 + streams_on w 4 \<and> streams_on w 4 = 1 \<and>
    times_opened w 5 = times_closed w 5 + streams_on w 5 + 1"
proof -
  let ?es = "[Connection 0 3 (Some (''snapshot'' @ [CHR 0x0A])) False True,
      Connection 0 4 (Some (''live'' @ [CHR 0x0A])) False True, Connection 0 5 (Some (''live-text'' @ [CHR 0x0A])) False False]"
  obtain p where p: "main_start sample_start = Inr p" "prog_storage p = TrafficStorage_new 10"
    using sample_main_start by blast
  obtain w0 :: "mem_db service" where w0: "service_start sample_start sample_sockets (\<lambda>_. False) (True, []) = Inr w0"
    "srv_serving w0" "srv_clients w0 = Map.empty" "srv_started w0 = 0" "srv_system w0 = system_of p (True, [])"
    by (simp add: service_start_def p(1) Daemon_new_def startSocketServer_def sample_sockets_def)
  let ?env = "api_of sorted_iterate mem_sqlite 0 (sys_storage (srv_system w0)) (sys_db (srv_system w0))"
  have ok: "json_get ''result'' (snapshot ?env) = JText ''success''" "json_utf8 (snapshot ?env)"
    by (rule snapshot_shows(1,3), simp_all add: sorted_iterates w0(5) system_of_def p(2) TrafficStorage_new_def)+
  let ?w1 = "w0\<lparr>srv_sent := srv_sent w0 @ [Sent 3 (snapshot ?env), Closed_fd 3]\<rparr>"
  have s1: "service_step sample_dump sorted_iterate mem_sqlite (Connection 0 3 (Some (''snapshot'' @ [CHR 0x0A])) False True) w0 = Inr ?w1"
    using connection_reply [OF sample_dump_strict w0(2) ok request_snapshot] by simp
  obtain w2 where s2: "service_step sample_dump sorted_iterate mem_sqlite (Connection 0 4 (Some (''live'' @ [CHR 0x0A])) False True) ?w1 = Inr w2"
    and w2: "srv_serving w2" "srv_clients w2 = [0 \<mapsto> \<lparr>client_fd = 4, client_text = False, client_pc = Starting\<rparr>]"
    using request_live w0(2-4) by (simp add: connection_def start_stream_def)
  let ?w3 = "w2\<lparr>srv_sent := srv_sent w2 @ [Live_text_thread 5]\<rparr>"
  have s3: "service_step sample_dump sorted_iterate mem_sqlite (Connection 0 5 (Some (''live-text'' @ [CHR 0x0A])) False False) w2 = Inr ?w3"
    using request_live_text w2(1) by (simp add: connection_def)
  have run: "service_run sample_dump sorted_iterate mem_sqlite ?es w0 = Inr ?w3"
    unfolding service_run.simps s1 s2 s3 sum.case by (rule refl)
  have leaks: "run_leaks sample_dump sorted_iterate mem_sqlite ?es w0 fd = (if fd = 5 then 1 else 0)" for fd
    unfolding run_leaks.simps s1 s2 s3 sum.case using request_live_text w2(1) by (simp add: step_leaks_def)
  have "stream_numbers ?w3 fd = (if fd = 4 then {0} else {})" for fd
    using w2(2) by (auto simp: stream_numbers_def split: if_splits)
  then have "streams_on ?w3 fd = (if fd = 4 then 1 else 0)" for fd by (simp add: streams_on_def)
  with service_descriptors [OF w0(1) run, of 3] service_descriptors [OF w0(1) run, of 4]
    service_descriptors [OF w0(1) run, of 5] leaks w0(1) run
  show ?thesis by (intro exI [of _ w0] exI [of _ ?w3] conjI) (assumption | simp)+
qed

end
